theory Spec2Isabelle
  imports Main
begin

section \<open>JavaScript values and string helpers\<close>

text \<open>
  Strings are sequences of code units (\<open>char list\<close>); a Node \<open>Buffer\<close> is the byte
  sequence of a string, so \<open>Buffer.from(s, "utf8")\<close> is the string's own unit sequence.
  JSON values travel through request bodies, frontmatter and responses.
\<close>

type_synonym buffer = "char list"

datatype json =
    JNull
  | JBool bool
  | JNum int
  | JStr string
  | JArr "json list"
  | JObj "(string \<times> json) list"

text \<open>The body handed to a route handler: \<open>undefined\<close>, a parsed JSON value or the raw text.\<close>

datatype body = Undefined | Parsed json | Raw string

text \<open>\<open>s.split(c)\<close> for a one-character separator: always at least one field.\<close>

fun split :: "char \<Rightarrow> string \<Rightarrow> string list" where
  "split c [] = [[]]"
| "split c (x # xs) =
     (if x = c then [] # split c xs
      else (case split c xs of
              w # ws \<Rightarrow> (x # w) # ws
            | [] \<Rightarrow> [[x]]))"

text \<open>Array destructuring and indexing: a missing position reads as \<open>undefined\<close>.\<close>

fun nth_opt :: "'a list \<Rightarrow> nat \<Rightarrow> 'a option" where
  "nth_opt [] n = None"
| "nth_opt (x # xs) 0 = Some x"
| "nth_opt (x # xs) (Suc n) = nth_opt xs n"

text \<open>\<open>!s\<close> on a value that is a string, \<open>null\<close> or \<open>undefined\<close>.\<close>

fun falsy :: "string option \<Rightarrow> bool" where
  "falsy None = True"
| "falsy (Some s) = (s = [])"

section \<open>The vault as the routes see it\<close>

record tfile =
  path :: string
  basename :: string
  extension :: string
  parent :: "string option"

datatype abstract_file = TFile tfile | TFolder string

record link_ref =
  link :: string
  original :: string

record cached_metadata =
  links :: "link_ref list option"
  embeds :: "link_ref list option"
  frontmatter :: "(string \<times> json) list option"
  tags :: "string list option"

text \<open>
  \<open>app.vault\<close> and \<open>app.metadataCache\<close>, the two collaborators the handlers call.
  Reading a note's text is asynchronous I/O that may reject, and the handlers guard the
  lookup of a note's cached metadata with \<open>try\<close>/\<open>catch\<close>, so both are fallible here
  and carry the error message on the left. \<open>getFileCache\<close> answers \<open>null\<close> (\<open>None\<close>) for a
  file without cached metadata, and each field of the metadata may be missing.
  \<open>getFirstLinkpathDest link sourcePath\<close> is the file a link resolves to, if any;
  \<open>tags\<close> holds the \<open>tag\<close> strings of the inline tag references.
\<close>

record app =
  getName :: string
  getMarkdownFiles :: "tfile list"
  getAbstractFileByPath :: "string \<Rightarrow> abstract_file option"
  read :: "tfile \<Rightarrow> string + string"
  getFileCache :: "tfile \<Rightarrow> string + cached_metadata option"
  getFirstLinkpathDest :: "string \<Rightarrow> string \<Rightarrow> tfile option"

section \<open>server.ts: the dispatcher\<close>

definition VERSION :: string where
  "VERSION = ''0.1.2''"

definition MAX_BODY_SIZE :: nat where
  "MAX_BODY_SIZE = 10 * 1024 * 1024"

definition ROUTE_TIMEOUT :: nat where
  "ROUTE_TIMEOUT = 30000"

record response =
  status :: nat
  payload :: json

text \<open>
  A request as \<open>handleRequest\<close> reads it: the method, the \<open>pathname\<close> of its URL, the
  Authorization header, and the body stream as its \<open>data\<close> chunks in order followed by
  the \<open>end\<close> or \<open>error\<close> event that finishes it.
\<close>

datatype stream_end = End | StreamError string

record request =
  req_method :: "string option"
  req_pathname :: string
  req_authorization :: "string option"
  req_chunks :: "buffer list"
  req_end :: stream_end

text \<open>
  What a handler does with \<open>res\<close> and with the promise it returns: the responses it ends,
  each with the time in milliseconds after its invocation, and when and how the promise
  settles (\<open>None\<close>: never; \<open>Some (t, None)\<close>: fulfilled at \<open>t\<close>; \<open>Some (t, Some m)\<close>:
  rejected at \<open>t\<close> with an error of message \<open>m\<close>).
\<close>

record handler_run =
  writes :: "(nat \<times> response) list"
  settled :: "(nat \<times> string option) option"

text \<open>
  A registered route. \<open>pattern\<close> is the compiled regular expression as a function: the
  capture groups of a match of the whole path, \<open>None\<close> when the path does not match.
\<close>

record route =
  route_method :: string
  pattern :: "string \<Rightarrow> string list option"
  paramNames :: "string list"
  handler :: "request \<Rightarrow> (string \<rightharpoonup> string) \<Rightarrow> body \<Rightarrow> handler_run"

text \<open>
  Built-ins of the JavaScript runtime that the model takes as given. \<open>match_link b c\<close>
  stands for \<open>c.match(new RegExp(`\\[\\[${b}(\\|[^\\]]+)?\\]\\]`, "i"))\<close>: the error when the
  pattern built from \<open>b\<close> does not compile, else the matched text, if any.
\<close>

record runtime =
  JSON_parse :: "string \<Rightarrow> json option"
  JSON_stringify :: "(string \<times> json) list \<Rightarrow> string"
  String_of :: "json \<Rightarrow> string"
  toLowerCase :: "string \<Rightarrow> string"
  decodeURIComponent :: "string \<Rightarrow> string + string"
  match_link :: "string \<Rightarrow> string \<Rightarrow> string + string option"

record server =
  routes :: "route list"
  authToken :: "string option"

text \<open>What \<open>handleRequest\<close> leaves behind: the responses ended on \<open>res\<close>, in order, the
  error it throws, if any, and whether \<open>req.destroy()\<close> was called on the request. The
  only call of \<open>req.destroy()\<close> is in \<open>parseBody\<close>, which runs before anything is written
  to \<open>res\<close>.\<close>

record dispatch =
  responses :: "response list"
  thrown :: "string option"
  destroyed :: bool

text \<open>What reaches the client. \<open>req.destroy()\<close> on a request whose body is still arriving
  destroys the socket that \<open>res\<close> writes to, and what is written to a destroyed socket is
  discarded: the client sees the connection closed and none of the responses.\<close>

definition delivered :: "dispatch \<Rightarrow> response list" where
  "delivered d = (if destroyed d then [] else responses d)"

definition sendJson :: "json \<Rightarrow> response" where
  "sendJson data = \<lparr>status = 200, payload = data\<rparr>"

definition sendError :: "nat \<Rightarrow> string \<Rightarrow> string \<Rightarrow> response" where
  "sendError st code message =
     \<lparr>status = st,
      payload = JObj [(''ok'', JBool False),
                      (''error'', JObj [(''code'', JStr code), (''message'', JStr message)])]\<rparr>"

text \<open>\<open>crypto.timingSafeEqual\<close> throws on buffers of different length.\<close>

definition timingSafeEqual :: "buffer \<Rightarrow> buffer \<Rightarrow> string + bool" where
  "timingSafeEqual a b =
     (if length a \<noteq> length b then Inl ''Input buffers must have the same byte length''
      else Inr (a = b))"

definition Buffer_from :: "string \<Rightarrow> buffer" where
  "Buffer_from s = s"

text \<open>\<open>checkAuth\<close>, with the comparison of the two buffers as a parameter.\<close>

definition checkAuthWith ::
  "(buffer \<Rightarrow> buffer \<Rightarrow> string + bool) \<Rightarrow> string option \<Rightarrow> string option \<Rightarrow> bool" where
  "checkAuthWith compare tok authorization =
     (if falsy tok then True
      else if falsy authorization then False
      else
        (let parts = split CHR '' '' (the authorization);
             type = nth_opt parts 0;
             token = nth_opt parts 1
         in if type \<noteq> Some ''Bearer'' \<or> falsy token then False
            else
              (let tokenBuf = Buffer_from (the token);
                   authBuf = Buffer_from (the tok)
               in if length tokenBuf \<noteq> length authBuf then False
                  else (case compare tokenBuf authBuf of
                          Inl err \<Rightarrow> False
                        | Inr eq \<Rightarrow> eq))))"

definition checkAuth :: "server \<Rightarrow> request \<Rightarrow> bool" where
  "checkAuth srv req = checkAuthWith timingSafeEqual (authToken srv) (req_authorization req)"

text \<open>What a call of \<open>parseBody\<close> does: whether it called \<open>req.destroy()\<close>, and how the
  promise it returns settles (\<open>Inl\<close> the message of the error it rejects with).\<close>

record body_read =
  req_destroyed :: bool
  body_promise :: "string + body"

text \<open>\<open>parseBody\<close>: the data events in order, then the event that ends the stream. On the
  first chunk that takes the size over the cap it calls \<open>req.destroy()\<close> and then rejects.\<close>

fun parseBody_data ::
  "(string \<Rightarrow> json option) \<Rightarrow> stream_end \<Rightarrow> nat \<Rightarrow> buffer list \<Rightarrow> buffer list \<Rightarrow> body_read" where
  "parseBody_data parse fin sz chunks [] =
     \<lparr>req_destroyed = False,
      body_promise =
        (case fin of
           StreamError err \<Rightarrow> Inl err
         | End \<Rightarrow>
             (let text = concat chunks
              in if text = [] then Inr Undefined
                 else (case parse text of
                         Some v \<Rightarrow> Inr (Parsed v)
                       | None \<Rightarrow> Inr (Raw text))))\<rparr>"
| "parseBody_data parse fin sz chunks (chunk # rest) =
     (let sz' = sz + length chunk
      in if sz' > MAX_BODY_SIZE then
           \<lparr>req_destroyed = True, body_promise = Inl ''Request body too large''\<rparr>
         else parseBody_data parse fin sz' (chunks @ [chunk]) rest)"

definition parseBody :: "runtime \<Rightarrow> request \<Rightarrow> body_read" where
  "parseBody rt req = parseBody_data (JSON_parse rt) (req_end req) 0 [] (req_chunks req)"

text \<open>\<open>withTimeout\<close>: the handler's promise against a timer of \<open>ms\<close> milliseconds.\<close>

definition withTimeout :: "handler_run \<Rightarrow> nat \<Rightarrow> string + unit" where
  "withTimeout run ms =
     (case settled run of
        None \<Rightarrow> Inl ''Request timeout''
      | Some (t, outcome) \<Rightarrow>
          if t < ms then (case outcome of None \<Rightarrow> Inr () | Some err \<Rightarrow> Inl err)
          else Inl ''Request timeout'')"

text \<open>
  The responses on \<open>res\<close> when \<open>withTimeout\<close> settles: those the handler ended up to
  the settlement of its own promise, or strictly before the timer fires.
\<close>

definition settle_time :: "handler_run \<Rightarrow> nat \<Rightarrow> nat" where
  "settle_time run ms =
     (case settled run of
        None \<Rightarrow> ms
      | Some (t, outcome) \<Rightarrow> if t < ms then Suc t else ms)"

definition written_before :: "handler_run \<Rightarrow> nat \<Rightarrow> response list" where
  "written_before run t = map snd (filter (\<lambda>w. fst w < t) (writes run))"

text \<open>The \<open>forEach\<close> over \<open>paramNames\<close>: group \<open>i + 1\<close> of the match, percent-decoded.\<close>

fun extract_params ::
  "runtime \<Rightarrow> string list \<Rightarrow> string list \<Rightarrow> nat \<Rightarrow> (string \<rightharpoonup> string) \<Rightarrow> string + (string \<rightharpoonup> string)" where
  "extract_params rt groups [] i params = Inr params"
| "extract_params rt groups (name # names) i params =
     (case decodeURIComponent rt (case nth_opt groups i of None \<Rightarrow> ''undefined'' | Some g \<Rightarrow> g) of
        Inl err \<Rightarrow> Inl err
      | Inr v \<Rightarrow> extract_params rt groups names (Suc i) (params(name \<mapsto> v)))"

text \<open>The \<open>try\<close> around the handler call in \<open>handleRequest\<close>.\<close>

definition execute_route :: "handler_run \<Rightarrow> dispatch" where
  "execute_route run =
     (let before = written_before run (settle_time run ROUTE_TIMEOUT)
      in case withTimeout run ROUTE_TIMEOUT of
           Inr u \<Rightarrow> \<lparr>responses = before, thrown = None, destroyed = False\<rparr>
         | Inl err \<Rightarrow>
             if err = ''Request timeout'' then
               (if before = [] then
                  \<lparr>responses = [sendError 504 ''INTERNAL_ERROR'' ''Request timeout''], thrown = None,
                   destroyed = False\<rparr>
                else \<lparr>responses = before, thrown = None, destroyed = False\<rparr>)
             else \<lparr>responses = before, thrown = Some err, destroyed = False\<rparr>)"

fun match_routes :: "runtime \<Rightarrow> route list \<Rightarrow> request \<Rightarrow> string \<Rightarrow> string \<Rightarrow> dispatch" where
  "match_routes rt [] req meth p =
     \<lparr>responses = [sendError 404 ''NOT_FOUND'' (''Route not found: '' @ meth @ '' '' @ p)],
      thrown = None, destroyed = False\<rparr>"
| "match_routes rt (r # rest) req meth p =
     (if route_method r \<noteq> meth then match_routes rt rest req meth p
      else
        (case pattern r p of
           None \<Rightarrow> match_routes rt rest req meth p
         | Some groups \<Rightarrow>
             (case extract_params rt groups (paramNames r) 0 Map.empty of
                Inl err \<Rightarrow> \<lparr>responses = [], thrown = Some err, destroyed = False\<rparr>
              | Inr params \<Rightarrow>
                  (let rd = parseBody rt req
                   in case body_promise rd of
                        Inl err \<Rightarrow>
                          if err = ''Request body too large'' then
                            \<lparr>responses = [sendError 413 ''INTERNAL_ERROR'' ''Request body too large (max 10MB)''],
                             thrown = None, destroyed = req_destroyed rd\<rparr>
                          else
                            \<lparr>responses = [sendError 400 ''INTERNAL_ERROR'' ''Failed to parse request body''],
                             thrown = None, destroyed = req_destroyed rd\<rparr>
                      | Inr b \<Rightarrow>
                          (execute_route (handler r req params b))\<lparr>destroyed := req_destroyed rd\<rparr>))))"

text \<open>\<open>req.method || "GET"\<close>\<close>

definition request_method :: "request \<Rightarrow> string" where
  "request_method req = (if falsy (req_method req) then ''GET'' else the (req_method req))"

definition handleRequest :: "runtime \<Rightarrow> app \<Rightarrow> server \<Rightarrow> request \<Rightarrow> dispatch" where
  "handleRequest rt ap srv req =
     (let p = req_pathname req;
          meth = request_method req
      in if p = ''/health'' \<and> meth = ''GET'' then
           (if \<not> checkAuth srv req then
              \<lparr>responses = [sendJson (JObj [(''ok'', JBool True),
                                            (''data'', JObj [(''status'', JStr ''healthy'')])])],
               thrown = None, destroyed = False\<rparr>
            else
              \<lparr>responses = [sendJson (JObj [(''ok'', JBool True),
                                            (''data'', JObj [(''status'', JStr ''healthy''),
                                                             (''version'', JStr VERSION),
                                                             (''vault'', JStr (getName ap)),
                                                             (''fileCount'', JNum (int (length (getMarkdownFiles ap))))])])],
               thrown = None, destroyed = False\<rparr>)
         else if \<not> checkAuth srv req then
           \<lparr>responses = [sendError 401 ''AUTH_REQUIRED'' ''Authorization required''], thrown = None,
            destroyed = False\<rparr>
         else match_routes rt (routes srv) req meth p)"

text \<open>What \<open>parseBody\<close> resolves with on a clean end of a stream whose text is \<open>t\<close>.\<close>

definition body_of_text :: "(string \<Rightarrow> json option) \<Rightarrow> string \<Rightarrow> body" where
  "body_of_text parse t =
     (if t = [] then Undefined
      else (case parse t of Some v \<Rightarrow> Parsed v | None \<Rightarrow> Raw t))"

text \<open>The handler's promise is still pending when the timer of \<open>ROUTE_TIMEOUT\<close> fires.\<close>

definition deadline_exceeded :: "handler_run \<Rightarrow> bool" where
  "deadline_exceeded run =
     (case settled run of None \<Rightarrow> True | Some (t, outcome) \<Rightarrow> ROUTE_TIMEOUT \<le> t)"

subsection \<open>A small server used in the examples\<close>

text \<open>
  A runtime for the examples: nothing parses as JSON, text is already lower case, and the
  link pattern matches the plain form \<open>[[name]]\<close> of names without pattern syntax.
\<close>

definition rt0 :: runtime where
  "rt0 =
     \<lparr>JSON_parse = (\<lambda>s. None),
      JSON_stringify = (\<lambda>fm. ''{}''),
      String_of = (\<lambda>v. case v of JStr s \<Rightarrow> s | _ \<Rightarrow> ''null''),
      toLowerCase = (\<lambda>s. s),
      decodeURIComponent = Inr,
      match_link =
        (\<lambda>b c. if list_ex (\<lambda>x. x \<in> set ''+*?()[]{}|^$.'') b
               then Inl ''Invalid regular expression''
               else if list_ex (\<lambda>i. take (length b + 4) (drop i c) = ''[['' @ b @ '']]'') [0..<length c]
               then Inr (Some (''[['' @ b @ '']]''))
               else Inr None)\<rparr>"

definition ap0 :: app where
  "ap0 = \<lparr>getName = ''vault'', getMarkdownFiles = [],
          getAbstractFileByPath = (\<lambda>p. None),
          read = (\<lambda>f. Inl ''ENOENT''),
          getFileCache = (\<lambda>f. Inr None),
          getFirstLinkpathDest = (\<lambda>l s. None)\<rparr>"

definition route_echo :: route where
  "route_echo =
     \<lparr>route_method = ''POST'',
      pattern = (\<lambda>p. if p = ''/echo'' then Some [] else None),
      paramNames = [],
      handler = (\<lambda>req params b. \<lparr>writes = [(5, sendJson (JStr ''echo''))], settled = Some (5, None)\<rparr>)\<rparr>"

definition route_slow :: route where
  "route_slow =
     \<lparr>route_method = ''GET'',
      pattern = (\<lambda>p. if p = ''/slow'' then Some [] else None),
      paramNames = [],
      handler = (\<lambda>req params b. \<lparr>writes = [(45000, sendJson (JStr ''late''))], settled = Some (45000, None)\<rparr>)\<rparr>"

definition route_late :: route where
  "route_late =
     \<lparr>route_method = ''GET'',
      pattern = (\<lambda>p. if p = ''/late/n'' then Some [''n''] else None),
      paramNames = [''name''],
      handler = (\<lambda>req params b. \<lparr>writes = [(10, sendJson (JStr ''partial''))], settled = None\<rparr>)\<rparr>"

definition srv0 :: server where
  "srv0 = \<lparr>routes = [route_echo, route_slow, route_late], authToken = Some ''s3cret''\<rparr>"

definition req_exact :: request where
  "req_exact =
     \<lparr>req_method = Some ''POST'', req_pathname = ''/echo'',
      req_authorization = Some ''Bearer s3cret'',
      req_chunks = [replicate MAX_BODY_SIZE CHR ''a''], req_end = End\<rparr>"

definition req_over :: request where
  "req_over =
     \<lparr>req_method = Some ''POST'', req_pathname = ''/echo'',
      req_authorization = Some ''Bearer s3cret'',
      req_chunks = [replicate MAX_BODY_SIZE CHR ''a'', ''a''], req_end = End\<rparr>"

definition req_probe :: request where
  "req_probe =
     \<lparr>req_method = Some ''GET'', req_pathname = ''/health'',
      req_authorization = None, req_chunks = [], req_end = End\<rparr>"

definition req_owner :: request where
  "req_owner =
     \<lparr>req_method = Some ''GET'', req_pathname = ''/health'',
      req_authorization = Some ''Bearer s3cret'', req_chunks = [], req_end = End\<rparr>"

definition req_slow :: request where
  "req_slow =
     \<lparr>req_method = Some ''GET'', req_pathname = ''/slow'',
      req_authorization = Some ''Bearer s3cret'', req_chunks = [], req_end = End\<rparr>"

definition req_late :: request where
  "req_late =
     \<lparr>req_method = None, req_pathname = ''/late/n'',
      req_authorization = Some ''Bearer s3cret'', req_chunks = [], req_end = End\<rparr>"

section \<open>routes/graph.ts: the graph query\<close>

text \<open>\<open>s.replace(/\.md$/, "")\<close>\<close>

definition strip_md :: "string \<Rightarrow> string" where
  "strip_md s =
     (if 3 \<le> length s \<and> drop (length s - 3) s = ''.md'' then take (length s - 3) s else s)"

record graph_node =
  node_id :: string
  node_title :: string
  node_group :: string

record graph_edge =
  source :: string
  target :: string
  etype :: string

record graph_result =
  result_nodes :: "graph_node list"
  result_edges :: "graph_edge list"

text \<open>The request body of \<open>POST /graph/query\<close>, as the handler's type annotation reads it.\<close>

record graph_body =
  q_from :: "string option"
  q_depth :: "int option"
  q_direction :: "string option"

text \<open>
  The mutable locals of the handler: the \<open>nodes\<close> map in insertion order, the \<open>edges\<close>
  array and the \<open>visited\<close> set. \<open>history\<close> records every insertion into \<open>nodes\<close> and
  every push onto \<open>edges\<close> in the order they happen; the handler does not read it and it
  is not part of the response.
\<close>

datatype graph_event = NodeAdded string | EdgePushed graph_edge

record gstate =
  nodes :: "(string \<times> graph_node) list"
  edges :: "graph_edge list"
  visited :: "string set"
  history :: "graph_event list"

definition gstate0 :: gstate where
  "gstate0 = \<lparr>nodes = [], edges = [], visited = {}, history = []\<rparr>"

text \<open>The file lookup built before the traversal; a later \<open>set\<close> of a key replaces an earlier one.\<close>

fun fileMap_build :: "tfile list \<Rightarrow> (string \<rightharpoonup> tfile) \<Rightarrow> (string \<rightharpoonup> tfile)" where
  "fileMap_build [] m = m"
| "fileMap_build (file # files) m =
     fileMap_build files
       (m(path file \<mapsto> file, basename file \<mapsto> file, strip_md (path file) \<mapsto> file))"

definition fileMap :: "app \<Rightarrow> (string \<rightharpoonup> tfile)" where
  "fileMap ap = fileMap_build (getMarkdownFiles ap) Map.empty"

text \<open>\<open>fileMap.get(startPath) || fileMap.get(startPath + ".md")\<close>\<close>

definition fileMap_get :: "app \<Rightarrow> string \<Rightarrow> tfile option" where
  "fileMap_get ap startPath =
     (case fileMap ap startPath of
        Some file \<Rightarrow> Some file
      | None \<Rightarrow> fileMap ap (startPath @ ''.md''))"

text \<open>The node object \<open>addNode\<close> stores for a file.\<close>

definition node_of :: "tfile \<Rightarrow> graph_node" where
  "node_of file =
     \<lparr>node_id = strip_md (path file), node_title = basename file,
      node_group = (case parent file of None \<Rightarrow> [] | Some p \<Rightarrow> p)\<rparr>"

definition addNode :: "tfile \<Rightarrow> gstate \<Rightarrow> gstate" where
  "addNode file s =
     (let i = strip_md (path file)
      in if i \<in> set (map fst (nodes s)) then s
         else s\<lparr>nodes := nodes s @ [(i, node_of file)],
                 history := history s @ [NodeAdded i]\<rparr>)"

text \<open>\<open>edges.push({ source, target, type })\<close>\<close>

definition pushEdge :: "graph_edge \<Rightarrow> gstate \<Rightarrow> gstate" where
  "pushEdge e s = s\<lparr>edges := edges s @ [e], history := history s @ [EdgePushed e]\<rparr>"

text \<open>The edge the outgoing loops push for a resolved link, and the one the incoming scan pushes.\<close>

definition out_edge :: "tfile \<Rightarrow> tfile \<times> string \<Rightarrow> graph_edge" where
  "out_edge file tt =
     \<lparr>source = strip_md (path file), target = strip_md (path (fst tt)), etype = snd tt\<rparr>"

definition in_edge :: "tfile \<Rightarrow> tfile \<Rightarrow> graph_edge" where
  "in_edge file otherFile =
     \<lparr>source = strip_md (path otherFile), target = strip_md (path file), etype = ''wiki''\<rparr>"

text \<open>\<open>resolved instanceof TFile\<close> for each cached link, in order.\<close>

fun resolve_links :: "app \<Rightarrow> tfile \<Rightarrow> link_ref list \<Rightarrow> (tfile \<times> string) list" where
  "resolve_links ap file [] = []"
| "resolve_links ap file (l # ls) =
     (case getFirstLinkpathDest ap (link l) (path file) of
        Some resolved \<Rightarrow> (resolved, ''wiki'') # resolve_links ap file ls
      | None \<Rightarrow> resolve_links ap file ls)"

definition getOutlinks :: "app \<Rightarrow> tfile \<Rightarrow> string + (tfile \<times> string) list" where
  "getOutlinks ap file =
     (case getFileCache ap file of
        Inl err \<Rightarrow> Inl err
      | Inr cache \<Rightarrow>
          (case cache of
             None \<Rightarrow> Inr []
           | Some c \<Rightarrow>
               (case links c of
                  None \<Rightarrow> Inr []
                | Some ls \<Rightarrow> Inr (resolve_links ap file ls))))"

text \<open>The inner loop of the incoming scan: some cached link of \<open>otherFile\<close> resolves to \<open>file\<close>.\<close>

definition links_to :: "app \<Rightarrow> tfile \<Rightarrow> link_ref list \<Rightarrow> tfile \<Rightarrow> bool" where
  "links_to ap otherFile ls file =
     list_ex (\<lambda>l. case getFirstLinkpathDest ap (link l) (path otherFile) of
                    Some resolved \<Rightarrow> path resolved = path file
                  | None \<Rightarrow> False) ls"

text \<open>
  \<open>traverse\<close> with its two loops. The first component of the result of \<open>traverse\<close> and
  of the outgoing loop is the error thrown, if any; the incoming loop catches whatever
  its body throws and goes on with the next file.
\<close>

function traverse :: "app \<Rightarrow> int \<Rightarrow> string \<Rightarrow> string \<Rightarrow> int \<Rightarrow> gstate \<Rightarrow> string option \<times> gstate"
  and traverse_out ::
    "app \<Rightarrow> int \<Rightarrow> string \<Rightarrow> tfile \<Rightarrow> int \<Rightarrow> (tfile \<times> string) list \<Rightarrow> gstate \<Rightarrow> string option \<times> gstate"
  and traverse_in ::
    "app \<Rightarrow> int \<Rightarrow> string \<Rightarrow> tfile \<Rightarrow> int \<Rightarrow> tfile list \<Rightarrow> gstate \<Rightarrow> gstate"
where
  "traverse ap depth direction startPath currentDepth s =
     (if currentDepth > depth then (None, s)
      else if startPath \<in> visited s then (None, s)
      else
        (let s1 = s\<lparr>visited := insert startPath (visited s)\<rparr>
         in case fileMap_get ap startPath of
              None \<Rightarrow> (None, s1)
            | Some file \<Rightarrow>
                (let s2 = addNode file s1;
                     out =
                       (if direction = ''out'' \<or> direction = ''both'' then
                          (case getOutlinks ap file of
                             Inl err \<Rightarrow> (Some err, s2)
                           | Inr outlinks \<Rightarrow>
                               traverse_out ap depth direction file currentDepth outlinks s2)
                        else (None, s2))
                 in case fst out of
                      Some err \<Rightarrow> (Some err, snd out)
                    | None \<Rightarrow>
                        if direction = ''in'' \<or> direction = ''both'' then
                          (None, traverse_in ap depth direction file currentDepth
                                   (getMarkdownFiles ap) (snd out))
                        else (None, snd out))))"
| "traverse_out ap depth direction file currentDepth [] s = (None, s)"
| "traverse_out ap depth direction file currentDepth (tt # rest) s =
     (let s1 = pushEdge (out_edge file tt) (addNode (fst tt) s);
          r = traverse ap depth direction (path (fst tt)) (currentDepth + 1) s1
      in case fst r of
           Some err \<Rightarrow> (Some err, snd r)
         | None \<Rightarrow> traverse_out ap depth direction file currentDepth rest (snd r))"
| "traverse_in ap depth direction file currentDepth [] s = s"
| "traverse_in ap depth direction file currentDepth (otherFile # rest) s =
     (if path otherFile = path file then traverse_in ap depth direction file currentDepth rest s
      else
        (case getFileCache ap otherFile of
           Inl err \<Rightarrow> traverse_in ap depth direction file currentDepth rest s
         | Inr cache \<Rightarrow>
             (case (case cache of None \<Rightarrow> None | Some c \<Rightarrow> links c) of
                None \<Rightarrow> traverse_in ap depth direction file currentDepth rest s
              | Some ls \<Rightarrow>
                  if links_to ap otherFile ls file then
                    (let s1 = pushEdge (in_edge file otherFile) (addNode otherFile s);
                         r = traverse ap depth direction (path otherFile) (currentDepth + 1) s1
                     in traverse_in ap depth direction file currentDepth rest (snd r))
                  else traverse_in ap depth direction file currentDepth rest s)))"
  by pat_completeness auto

termination
  by (relation "measures
        [\<lambda>x. case x of
                Inl (ap, depth, direction, startPath, currentDepth, s) \<Rightarrow>
                  2 * nat (depth + 1 - currentDepth)
              | Inr (Inl (ap, depth, direction, file, currentDepth, ls, s)) \<Rightarrow>
                  2 * nat (depth - currentDepth) + 1
              | Inr (Inr (ap, depth, direction, file, currentDepth, fs, s)) \<Rightarrow>
                  2 * nat (depth - currentDepth) + 1,
         \<lambda>x. case x of
                Inl (ap, depth, direction, startPath, currentDepth, s) \<Rightarrow> 0
              | Inr (Inl (ap, depth, direction, file, currentDepth, ls, s)) \<Rightarrow> length ls
              | Inr (Inr (ap, depth, direction, file, currentDepth, fs, s)) \<Rightarrow> length fs]")
     auto

text \<open>The branch without a starting point: the outgoing edges of the first 100 files.\<close>

fun snapshot_edges :: "tfile \<Rightarrow> (tfile \<times> string) list \<Rightarrow> gstate \<Rightarrow> gstate" where
  "snapshot_edges file [] s = s"
| "snapshot_edges file (tt # rest) s =
     snapshot_edges file rest (pushEdge (out_edge file tt) (addNode (fst tt) s))"

fun snapshot :: "app \<Rightarrow> tfile list \<Rightarrow> gstate \<Rightarrow> gstate" where
  "snapshot ap [] s = s"
| "snapshot ap (file # rest) s =
     (let s1 = addNode file s
      in case getOutlinks ap file of
           Inl err \<Rightarrow> snapshot ap rest s1
         | Inr outlinks \<Rightarrow> snapshot ap rest (snapshot_edges file outlinks s1))"

definition graph_result_of :: "gstate \<Rightarrow> graph_result" where
  "graph_result_of s = \<lparr>result_nodes = map snd (nodes s), result_edges = edges s\<rparr>"

text \<open>
  The handler of \<open>POST /graph/query\<close>. \<open>graphQuery_run\<close> is the handler up to the point
  where it builds the result: the error thrown, if any, and the locals at that point.
  \<open>graphQuery\<close> is the error the handler rejects with, or the \<open>data\<close> of the response it
  sends. Destructuring a body that is \<open>undefined\<close> throws; \<open>depth_of\<close> and
  \<open>direction_of\<close> are the defaults of the destructuring pattern.
\<close>

definition depth_of :: "graph_body \<Rightarrow> int" where
  "depth_of b = (case q_depth b of None \<Rightarrow> 1 | Some d \<Rightarrow> d)"

definition direction_of :: "graph_body \<Rightarrow> string" where
  "direction_of b = (case q_direction b of None \<Rightarrow> ''both'' | Some d \<Rightarrow> d)"

definition graphQuery_run :: "app \<Rightarrow> graph_body \<Rightarrow> string option \<times> gstate" where
  "graphQuery_run ap b =
     (let depth = depth_of b;
          direction = direction_of b
      in if \<not> falsy (q_from b) then traverse ap depth direction (the (q_from b)) 0 gstate0
         else (None, snapshot ap (take 100 (getMarkdownFiles ap)) gstate0))"

definition graphQuery :: "app \<Rightarrow> graph_body option \<Rightarrow> string + graph_result" where
  "graphQuery ap body =
     (case body of
        None \<Rightarrow> Inl ''Cannot destructure property of undefined''
      | Some b \<Rightarrow>
          (case graphQuery_run ap b of
             (Some err, s) \<Rightarrow> Inl err
           | (None, s) \<Rightarrow> Inr (graph_result_of s)))"

subsection \<open>A vault of two notes that link to each other\<close>

definition fA :: tfile where
  "fA = \<lparr>path = ''A.md'', basename = ''A'', extension = ''md'', parent = Some ''/''\<rparr>"

definition fB :: tfile where
  "fB = \<lparr>path = ''B.md'', basename = ''B'', extension = ''md'', parent = Some ''/''\<rparr>"

definition cache_link :: "string \<Rightarrow> cached_metadata" where
  "cache_link name =
     \<lparr>links = Some [\<lparr>link = name, original = ''[['' @ name @ '']]''\<rparr>],
      embeds = None, frontmatter = None, tags = None\<rparr>"

definition apAB :: app where
  "apAB =
     \<lparr>getName = ''vault'',
      getMarkdownFiles = [fA, fB],
      getAbstractFileByPath =
        (\<lambda>p. if p = ''A.md'' then Some (TFile fA)
             else if p = ''B.md'' then Some (TFile fB) else None),
      read =
        (\<lambda>f. if path f = ''A.md'' then Inr ''see [[B]]''
             else if path f = ''B.md'' then Inr ''back to [[A]]'' else Inl ''ENOENT''),
      getFileCache =
        (\<lambda>f. if path f = ''A.md'' then Inr (Some (cache_link ''B''))
             else if path f = ''B.md'' then Inr (Some (cache_link ''A'')) else Inr None),
      getFirstLinkpathDest =
        (\<lambda>l src. if l = ''A'' then Some fA else if l = ''B'' then Some fB else None)\<rparr>"

definition nodeA :: graph_node where
  "nodeA = \<lparr>node_id = ''A'', node_title = ''A'', node_group = ''/''\<rparr>"

definition nodeB :: graph_node where
  "nodeB = \<lparr>node_id = ''B'', node_title = ''B'', node_group = ''/''\<rparr>"

definition edgeAB :: graph_edge where
  "edgeAB = \<lparr>source = ''A'', target = ''B'', etype = ''wiki''\<rparr>"

definition edgeBA :: graph_edge where
  "edgeBA = \<lparr>source = ''B'', target = ''A'', etype = ''wiki''\<rparr>"

definition q_cycle :: graph_body where
  "q_cycle = \<lparr>q_from = Some ''A'', q_depth = Some 5, q_direction = Some ''out''\<rparr>"

definition q_cycle_md :: graph_body where
  "q_cycle_md = \<lparr>q_from = Some ''A.md'', q_depth = Some 5, q_direction = Some ''out''\<rparr>"

definition q_depth0 :: graph_body where
  "q_depth0 = \<lparr>q_from = Some ''A'', q_depth = Some 0, q_direction = Some ''out''\<rparr>"

definition q_all :: graph_body where
  "q_all = \<lparr>q_from = None, q_depth = None, q_direction = None\<rparr>"

subsection \<open>A vault of 102 notes\<close>



subsection \<open>Notions used to state the graph properties\<close>

definition node_ids :: "gstate \<Rightarrow> string set" where
  "node_ids s = set (map fst (nodes s))"

text \<open>The ids inserted by a stretch of the history.\<close>

fun added :: "graph_event list \<Rightarrow> string set" where
  "added [] = {}"
| "added (NodeAdded i # h) = insert i (added h)"
| "added (EdgePushed e # h) = added h"

fun pushed :: "graph_event list \<Rightarrow> graph_edge list" where
  "pushed [] = []"
| "pushed (NodeAdded i # h) = pushed h"
| "pushed (EdgePushed e # h) = e # pushed h"

fun inserted :: "graph_event list \<Rightarrow> string list" where
  "inserted [] = []"
| "inserted (NodeAdded i # h) = i # inserted h"
| "inserted (EdgePushed e # h) = inserted h"

text \<open>
  Replaying a history from the ids \<open>seen\<close> so far: every edge is pushed when both of its
  endpoints are already in the node map.
\<close>

fun endpoints_known :: "string set \<Rightarrow> graph_event list \<Rightarrow> bool" where
  "endpoints_known seen [] = True"
| "endpoints_known seen (NodeAdded i # h) = endpoints_known (insert i seen) h"
| "endpoints_known seen (EdgePushed e # h) =
     (source e \<in> seen \<and> target e \<in> seen \<and> endpoints_known seen h)"

text \<open>
  The notes the incoming scan of \<open>file\<close> finds: the other files with a cached link that
  resolves to it.
\<close>

definition links_into :: "app \<Rightarrow> tfile \<Rightarrow> tfile \<Rightarrow> bool" where
  "links_into ap file otherFile =
     (path otherFile \<noteq> path file \<and>
      (case getFileCache ap otherFile of
         Inl err \<Rightarrow> False
       | Inr cache \<Rightarrow>
           (case (case cache of None \<Rightarrow> None | Some c \<Rightarrow> links c) of
              None \<Rightarrow> False
            | Some ls \<Rightarrow> links_to ap otherFile ls file)))"

definition incoming :: "app \<Rightarrow> tfile \<Rightarrow> tfile list" where
  "incoming ap file = filter (links_into ap file) (getMarkdownFiles ap)"

text \<open>The links a traversal expands at the start note, by direction.\<close>

definition start_out :: "string \<Rightarrow> (tfile \<times> string) list \<Rightarrow> (tfile \<times> string) list" where
  "start_out direction outlinks =
     (if direction = ''out'' \<or> direction = ''both'' then outlinks else [])"

definition start_in :: "app \<Rightarrow> string \<Rightarrow> tfile \<Rightarrow> tfile list" where
  "start_in ap direction file =
     (if direction = ''in'' \<or> direction = ''both'' then incoming ap file else [])"


text \<open>
  The state invariant: the history is the record of how \<open>nodes\<close> and \<open>edges\<close> were
  built, and every edge in it was pushed after both of its endpoints were inserted.
\<close>

definition consistent :: "gstate \<Rightarrow> bool" where
  "consistent s \<longleftrightarrow>
     map fst (nodes s) = inserted (history s) \<and>
     edges s = pushed (history s) \<and>
     endpoints_known {} (history s)"

text \<open>One iteration of the outgoing loops and of the incoming scan, without the recursive call.\<close>

definition out_step :: "tfile \<Rightarrow> tfile \<times> string \<Rightarrow> gstate \<Rightarrow> gstate" where
  "out_step file tt s = pushEdge (out_edge file tt) (addNode (fst tt) s)"

definition in_step :: "tfile \<Rightarrow> tfile \<Rightarrow> gstate \<Rightarrow> gstate" where
  "in_step file otherFile s = pushEdge (in_edge file otherFile) (addNode otherFile s)"

subsection \<open>A note without links\<close>

definition apLone :: app where
  "apLone = apAB\<lparr>getMarkdownFiles := [fA], getFileCache := (\<lambda>f. Inr None)\<rparr>"

text \<open>Every entry of the node map is stored under its own id, and no id is stored twice.\<close>

definition keyed :: "gstate \<Rightarrow> bool" where
  "keyed s \<longleftrightarrow> map (node_id \<circ> snd) (nodes s) = map fst (nodes s) \<and> distinct (map fst (nodes s))"

section \<open>utils.ts\<close>

definition starts_with :: "string \<Rightarrow> string \<Rightarrow> bool" where
  "starts_with s pre = (take (length pre) s = pre)"

definition ends_with :: "string \<Rightarrow> string \<Rightarrow> bool" where
  "ends_with s suf = (length suf \<le> length s \<and> drop (length s - length suf) s = suf)"

definition normalizePath :: "string \<Rightarrow> string" where
  "normalizePath p =
     (let p1 = (if starts_with p ''/'' then drop 1 p else p)
      in if \<not> ends_with p1 ''.md'' then p1 @ ''.md'' else p1)"

text \<open>\<open>s.indexOf(pat)\<close>: the first position at which \<open>pat\<close> occurs, \<open>None\<close> for \<open>-1\<close>.\<close>

fun indexOf :: "string \<Rightarrow> string \<Rightarrow> nat option" where
  "indexOf [] pat = (if pat = [] then Some 0 else None)"
| "indexOf (c # cs) pat =
     (if take (length pat) (c # cs) = pat then Some 0 else map_option Suc (indexOf cs pat))"

text \<open>\<open>s.trim()\<close>, over the white space and line terminators of ASCII.\<close>

definition is_space :: "char \<Rightarrow> bool" where
  "is_space c = (c \<in> {CHR 0x09, CHR 0x0A, CHR 0x0B, CHR 0x0C, CHR 0x0D, CHR '' ''})"

definition trim :: "string \<Rightarrow> string" where
  "trim s = rev (dropWhile is_space (rev (dropWhile is_space s)))"

definition getContext :: "string \<Rightarrow> string \<Rightarrow> string" where
  "getContext content searchText =
     (case indexOf content searchText of
        None \<Rightarrow> []
      | Some idx \<Rightarrow>
          (let start = idx - 30;
               stop = min (length content) (idx + length searchText + 30);
               c0 = trim (map (\<lambda>c. if c = CHR 0x0A then CHR '' '' else c)
                            (take (stop - start) (drop start content)));
               c1 = (if start > 0 then ''...'' @ c0 else c0)
           in if stop < length content then c1 @ ''...'' else c1))"

text \<open>JavaScript truthiness of a JSON value.\<close>

fun truthy :: "json \<Rightarrow> bool" where
  "truthy JNull = False"
| "truthy (JBool b) = b"
| "truthy (JNum n) = (n \<noteq> 0)"
| "truthy (JStr s) = (s \<noteq> [])"
| "truthy (JArr xs) = True"
| "truthy (JObj kvs) = True"

record note_info =
  ni_path :: string
  ni_title :: json
  ni_tags :: "json list"
  ni_created :: "json option"
  ni_modified :: "json option"

text \<open>\<open>tag.startsWith("#") ? tag.slice(1) : tag\<close>\<close>

definition tag_name :: "string \<Rightarrow> string" where
  "tag_name t = (if starts_with t ''#'' then drop 1 t else t)"

fun add_inline_tags :: "string list \<Rightarrow> json list \<Rightarrow> json list" where
  "add_inline_tags [] acc = acc"
| "add_inline_tags (t # ts) acc =
     add_inline_tags ts (if JStr (tag_name t) \<in> set acc then acc else acc @ [JStr (tag_name t)])"

definition fileToNoteInfo :: "app \<Rightarrow> tfile \<Rightarrow> cached_metadata option \<Rightarrow> string + note_info" where
  "fileToNoteInfo ap file cache =
     (case (case cache of Some c \<Rightarrow> Inr (Some c) | None \<Rightarrow> getFileCache ap file) of
        Inl err \<Rightarrow> Inl err
      | Inr metadata \<Rightarrow>
          (let fm = (case (case metadata of None \<Rightarrow> None | Some m \<Rightarrow> frontmatter m) of
                       None \<Rightarrow> []
                     | Some f \<Rightarrow> f);
               tags0 = (case map_of fm ''tags'' of Some (JArr xs) \<Rightarrow> xs | _ \<Rightarrow> []);
               tags1 = (case (case metadata of None \<Rightarrow> None | Some m \<Rightarrow> tags m) of
                          None \<Rightarrow> tags0
                        | Some inline \<Rightarrow> add_inline_tags inline tags0)
           in Inr \<lparr>ni_path = strip_md (path file),
                   ni_title = (case map_of fm ''title'' of
                                 None \<Rightarrow> JStr (basename file)
                               | Some t \<Rightarrow> if truthy t then t else JStr (basename file)),
                   ni_tags = tags1,
                   ni_created = map_of fm ''created'',
                   ni_modified = map_of fm ''modified''\<rparr>))"

section \<open>routes/links.ts\<close>

text \<open>What a handler sends: \<open>sendJson(res, {ok: true, data})\<close> or \<open>sendError(res, status, code, message)\<close>.\<close>

datatype 'a reply = Data 'a | Failure nat string string

record link_info =
  li_path :: string
  li_title :: string
  li_exists :: bool
  li_context :: string

record backlink_info = note_info +
  bl_context :: string

text \<open>\<open>{ ...info, context }\<close>\<close>

definition with_context :: "note_info \<Rightarrow> string \<Rightarrow> backlink_info" where
  "with_context info c =
     \<lparr>ni_path = ni_path info, ni_title = ni_title info, ni_tags = ni_tags info,
      ni_created = ni_created info, ni_modified = ni_modified info, bl_context = c\<rparr>"

text \<open>\<open>allLinks.some(link => resolved?.path === targetPath)\<close> for the links of \<open>file\<close>.\<close>

definition has_link :: "app \<Rightarrow> tfile \<Rightarrow> link_ref list \<Rightarrow> string \<Rightarrow> bool" where
  "has_link ap file allLinks targetPath =
     list_ex (\<lambda>l. case getFirstLinkpathDest ap (link l) (path file) of
                    Some resolved \<Rightarrow> path resolved = targetPath
                  | None \<Rightarrow> False) allLinks"

text \<open>
  The body of the \<open>try\<close> in the backlink scan for one file: the entry to push, \<open>None\<close>
  when the file has no link to the target, or the error thrown.
\<close>

definition backlink_of ::
  "runtime \<Rightarrow> app \<Rightarrow> string \<Rightarrow> string \<Rightarrow> tfile \<Rightarrow> string + backlink_info option" where
  "backlink_of rt ap targetPath targetBasename file =
     (case getFileCache ap file of
        Inl err \<Rightarrow> Inl err
      | Inr cache \<Rightarrow>
          (case cache of
             None \<Rightarrow> Inr None
           | Some c \<Rightarrow>
               if links c = None \<and> embeds c = None then Inr None
               else
                 (let allLinks = (case links c of None \<Rightarrow> [] | Some ls \<Rightarrow> ls) @
                                 (case embeds c of None \<Rightarrow> [] | Some es \<Rightarrow> es)
                  in if has_link ap file allLinks targetPath then
                       (case read ap file of
                          Inl err \<Rightarrow> Inl err
                        | Inr content \<Rightarrow>
                            (case match_link rt targetBasename content of
                               Inl err \<Rightarrow> Inl err
                             | Inr linkMatch \<Rightarrow>
                                 (case fileToNoteInfo ap file (Some c) of
                                    Inl err \<Rightarrow> Inl err
                                  | Inr info \<Rightarrow>
                                      Inr (Some (with_context info
                                             (case linkMatch of
                                                None \<Rightarrow> []
                                              | Some m \<Rightarrow> getContext content m))))))
                     else Inr None)))"

text \<open>The scan over all markdown files; a file whose \<open>try\<close> body throws is skipped.\<close>

fun backlinks_scan ::
  "runtime \<Rightarrow> app \<Rightarrow> string \<Rightarrow> string \<Rightarrow> tfile list \<Rightarrow> backlink_info list \<Rightarrow> backlink_info list" where
  "backlinks_scan rt ap targetPath targetBasename [] acc = acc"
| "backlinks_scan rt ap targetPath targetBasename (file # rest) acc =
     (if path file = targetPath then backlinks_scan rt ap targetPath targetBasename rest acc
      else
        (case backlink_of rt ap targetPath targetBasename file of
           Inl err \<Rightarrow> backlinks_scan rt ap targetPath targetBasename rest acc
         | Inr None \<Rightarrow> backlinks_scan rt ap targetPath targetBasename rest acc
         | Inr (Some entry) \<Rightarrow> backlinks_scan rt ap targetPath targetBasename rest (acc @ [entry])))"

text \<open>\<open>GET /notes/:path/backlinks\<close>\<close>

definition backlinks_route :: "runtime \<Rightarrow> app \<Rightarrow> string \<Rightarrow> backlink_info list reply" where
  "backlinks_route rt ap param_path =
     (let targetPath = normalizePath param_path
      in case getAbstractFileByPath ap targetPath of
           Some (TFile targetFile) \<Rightarrow>
             Data (backlinks_scan rt ap targetPath (basename targetFile) (getMarkdownFiles ap) [])
         | _ \<Rightarrow> Failure 404 ''NOT_FOUND'' (''Note not found: '' @ param_path))"

text \<open>The two loops of the outlinks handler; \<open>seen\<close> is shared between them.\<close>

fun outlinks_links ::
  "app \<Rightarrow> string \<Rightarrow> string \<Rightarrow> link_ref list \<Rightarrow> string set \<times> link_info list \<Rightarrow> string set \<times> link_info list" where
  "outlinks_links ap sourcePath content [] st = st"
| "outlinks_links ap sourcePath content (l # ls) st =
     (if link l \<in> fst st then outlinks_links ap sourcePath content ls st
      else
        (let resolved = getFirstLinkpathDest ap (link l) sourcePath;
             entry = \<lparr>li_path = (case resolved of Some r \<Rightarrow> strip_md (path r) | None \<Rightarrow> link l),
                      li_title = (case resolved of Some r \<Rightarrow> basename r | None \<Rightarrow> link l),
                      li_exists = (resolved \<noteq> None),
                      li_context = getContext content (original l)\<rparr>
         in outlinks_links ap sourcePath content ls (insert (link l) (fst st), snd st @ [entry])))"

fun outlinks_embeds ::
  "app \<Rightarrow> string \<Rightarrow> string \<Rightarrow> link_ref list \<Rightarrow> string set \<times> link_info list \<Rightarrow> string set \<times> link_info list" where
  "outlinks_embeds ap sourcePath content [] st = st"
| "outlinks_embeds ap sourcePath content (l # ls) st =
     (if link l \<in> fst st then outlinks_embeds ap sourcePath content ls st
      else
        (case getFirstLinkpathDest ap (link l) sourcePath of
           Some r \<Rightarrow>
             if extension r = ''md'' then
               outlinks_embeds ap sourcePath content ls
                 (insert (link l) (fst st),
                  snd st @ [\<lparr>li_path = strip_md (path r), li_title = basename r, li_exists = True,
                              li_context = getContext content (original l)\<rparr>])
             else outlinks_embeds ap sourcePath content ls (insert (link l) (fst st), snd st)
         | None \<Rightarrow> outlinks_embeds ap sourcePath content ls (insert (link l) (fst st), snd st)))"

text \<open>\<open>GET /notes/:path/outlinks\<close>: the error the handler rejects with, or what it sends.\<close>

definition outlinks_route :: "app \<Rightarrow> string \<Rightarrow> string + link_info list reply" where
  "outlinks_route ap param_path =
     (let sourcePath = normalizePath param_path
      in case getAbstractFileByPath ap sourcePath of
           Some (TFile sourceFile) \<Rightarrow>
             (case getFileCache ap sourceFile of
                Inl err \<Rightarrow> Inl err
              | Inr cache \<Rightarrow>
                  (case read ap sourceFile of
                     Inl err \<Rightarrow> Inl err
                   | Inr content \<Rightarrow>
                       (let st1 = (case (case cache of None \<Rightarrow> None | Some c \<Rightarrow> links c) of
                                     None \<Rightarrow> ({}, [])
                                   | Some ls \<Rightarrow> outlinks_links ap sourcePath content ls ({}, []));
                            st2 = (case (case cache of None \<Rightarrow> None | Some c \<Rightarrow> embeds c) of
                                     None \<Rightarrow> st1
                                   | Some es \<Rightarrow> outlinks_embeds ap sourcePath content es st1)
                        in Inr (Data (snd st2)))))
         | _ \<Rightarrow> Inr (Failure 404 ''NOT_FOUND'' (''Note not found: '' @ param_path)))"

subsection \<open>A note that links to itself\<close>

definition apSelf :: app where
  "apSelf =
     apAB\<lparr>read := (\<lambda>f. if path f = ''A.md'' then Inr ''me: [[A]]'' else Inr ''''),
          getFileCache :=
            (\<lambda>f. if path f = ''A.md'' then Inr (Some (cache_link ''A'')) else Inr None)\<rparr>"

text \<open>The condition under which the context snippet of \<open>file\<close> for a target can be built.\<close>

definition context_ok :: "runtime \<Rightarrow> app \<Rightarrow> tfile \<Rightarrow> tfile \<Rightarrow> bool" where
  "context_ok rt ap file targetFile =
     (case read ap file of
        Inl err \<Rightarrow> False
      | Inr content \<Rightarrow>
          (case match_link rt (basename targetFile) content of Inl err \<Rightarrow> False | Inr m \<Rightarrow> True))"

section \<open>utils.ts: processBatch\<close>

text \<open>
  A processor is an asynchronous function that may share state with its caller. Its
  call runs synchronously up to its first \<open>await\<close>: \<open>enter\<close> is \<open>Some\<close> of the outcome
  when the call settles without awaiting (an early return or a throw) and \<open>None\<close> when
  it suspends; \<open>resume\<close> is the rest of the call, run when the awaited operation
  completes, with its effect on the shared state. An outcome is the error thrown or the
  value returned, \<open>None\<close> for \<open>null\<close>. The awaited operations of a batch are taken to
  complete in the order in which they were started.
\<close>

record ('a, 's, 'r) processor =
  enter :: "'a \<Rightarrow> 's \<Rightarrow> (string + 'r option) option"
  resume :: "'a \<Rightarrow> 's \<Rightarrow> (string + 'r option) \<times> 's"

text \<open>The \<open>try\<close>/\<open>catch\<close> around each call: a throw becomes \<open>null\<close>.\<close>

fun caught :: "string + 'r option \<Rightarrow> 'r option" where
  "caught (Inl err) = None"
| "caught (Inr r) = r"

text \<open>
  \<open>Promise.all(batch.map(...))\<close>: every call of the batch enters against the state \<open>s0\<close>
  at the start of the batch; the suspended ones then resume in order.
\<close>

fun run_batch :: "('a, 's, 'r) processor \<Rightarrow> 's \<Rightarrow> 'a list \<Rightarrow> 's \<Rightarrow> 'r option list \<times> 's" where
  "run_batch p s0 [] s = ([], s)"
| "run_batch p s0 (item # rest) s =
     (case enter p item s0 of
        Some outcome \<Rightarrow>
          (let r = run_batch p s0 rest s in (caught outcome # fst r, snd r))
      | None \<Rightarrow>
          (let o1 = resume p item s;
               r = run_batch p s0 rest (snd o1)
           in (caught (fst o1) # fst r, snd r)))"

text \<open>\<open>if (result !== null) results.push(result)\<close> over the results of a batch.\<close>

fun push_results :: "'r option list \<Rightarrow> 'r list \<Rightarrow> 'r list" where
  "push_results [] results = results"
| "push_results (None # rs) results = push_results rs results"
| "push_results (Some r # rs) results = push_results rs (results @ [r])"

text \<open>
  The loop \<open>for (let i = 0; i < items.length; i += batchSize)\<close>, from index \<open>i\<close> with
  the results and the processor's state so far. With \<open>batchSize = 0\<close> it does not return.
\<close>

partial_function (option) processBatch_from ::
  "'a list \<Rightarrow> ('a, 's, 'r) processor \<Rightarrow> nat \<Rightarrow> nat \<Rightarrow> 'r list \<times> 's \<Rightarrow> ('r list \<times> 's) option" where
  "processBatch_from items p batchSize i acc =
     (if i < length items then
        processBatch_from items p batchSize (i + batchSize)
          (push_results (fst (run_batch p (snd acc) (take batchSize (drop i items)) (snd acc))) (fst acc),
           snd (run_batch p (snd acc) (take batchSize (drop i items)) (snd acc)))
      else Some acc)"

definition processBatch ::
  "'a list \<Rightarrow> ('a, 's, 'r) processor \<Rightarrow> nat \<Rightarrow> 's \<Rightarrow> ('r list \<times> 's) option" where
  "processBatch items p batchSize s = processBatch_from items p batchSize 0 ([], s)"

text \<open>A processor without shared state that awaits before computing its outcome.\<close>

definition stateless :: "('a \<Rightarrow> string + 'r option) \<Rightarrow> ('a, 's, 'r) processor" where
  "stateless f = \<lparr>enter = (\<lambda>item s. None), resume = (\<lambda>item s. (f item, s))\<rparr>"

section \<open>routes/search.ts\<close>

record search_body =
  s_query :: "string option"
  s_folder :: "string option"
  s_limit :: "int option"
  s_caseSensitive :: "bool option"

record search_match =
  sm_line :: nat
  sm_text :: string

record search_result =
  sr_note :: note_info
  sr_matches :: "search_match list"

text \<open>\<open>s.indexOf(pat, pos)\<close> and \<open>s.includes(pat)\<close>\<close>

definition indexOf_from :: "string \<Rightarrow> string \<Rightarrow> nat \<Rightarrow> nat option" where
  "indexOf_from s pat pos = map_option (\<lambda>i. i + min pos (length s)) (indexOf (drop pos s) pat)"

definition str_includes :: "string \<Rightarrow> string \<Rightarrow> bool" where
  "str_includes s pat = (indexOf s pat \<noteq> None)"

text \<open>The loop over the lines of the body, from line index \<open>i\<close>.\<close>

fun line_matches :: "runtime \<Rightarrow> bool \<Rightarrow> string \<Rightarrow> nat \<Rightarrow> string list \<Rightarrow> search_match list" where
  "line_matches rt caseSensitive searchQuery i [] = []"
| "line_matches rt caseSensitive searchQuery i (line # rest) =
     (let searchLine = (if caseSensitive then line else toLowerCase rt line)
      in (if str_includes searchLine searchQuery then [\<lparr>sm_line = i + 1, sm_text = trim line\<rparr>] else []) @
         line_matches rt caseSensitive searchQuery (Suc i) rest)"

definition content_matches :: "runtime \<Rightarrow> bool \<Rightarrow> string \<Rightarrow> string \<Rightarrow> search_match list" where
  "content_matches rt caseSensitive searchQuery content =
     (let text_body = (case indexOf_from content [CHR ''-'', CHR ''-'', CHR ''-'', CHR 0x0A] 4 of
                         Some bodyStart \<Rightarrow> if bodyStart > 0 then drop (bodyStart + 4) content else content
                       | None \<Rightarrow> content)
      in line_matches rt caseSensitive searchQuery 0 (split CHR 0x0A text_body))"

definition frontmatter_matches ::
  "runtime \<Rightarrow> bool \<Rightarrow> string \<Rightarrow> cached_metadata option \<Rightarrow> search_match list" where
  "frontmatter_matches rt caseSensitive searchQuery cache =
     (case (case cache of None \<Rightarrow> None | Some c \<Rightarrow> frontmatter c) of
        None \<Rightarrow> []
      | Some fm \<Rightarrow>
          (let fmStr = JSON_stringify rt fm;
               searchFm = (if caseSensitive then fmStr else toLowerCase rt fmStr)
           in if str_includes searchFm searchQuery
              then [\<lparr>sm_line = 0, sm_text = ''[frontmatter] '' @ take 100 fmStr\<rparr>]
              else []))"

text \<open>
  The processor the search handler passes to \<open>processBatch\<close>; its shared state is the
  \<open>results\<close> array of the handler. It returns \<open>null\<close> on every path and catches
  whatever its body throws.
\<close>

definition search_processor ::
  "runtime \<Rightarrow> app \<Rightarrow> int \<Rightarrow> bool \<Rightarrow> string \<Rightarrow> (tfile, search_result list, unit) processor" where
  "search_processor rt ap limit caseSensitive searchQuery =
     \<lparr>enter = (\<lambda>file results. if int (length results) \<ge> limit then Some (Inr None) else None),
      resume = (\<lambda>file results.
        (case read ap file of
           Inl err \<Rightarrow> (Inr None, results)
         | Inr content \<Rightarrow>
             (let matches = content_matches rt caseSensitive searchQuery content
              in case getFileCache ap file of
                   Inl err \<Rightarrow> (Inr None, results)
                 | Inr cache \<Rightarrow>
                     (let matches2 = matches @ frontmatter_matches rt caseSensitive searchQuery cache
                      in if length matches2 > 0 \<and> int (length results) < limit then
                           (case fileToNoteInfo ap file cache of
                              Inl err \<Rightarrow> (Inr None, results)
                            | Inr info \<Rightarrow>
                                (Inr None, results @ [\<lparr>sr_note = info, sr_matches = matches2\<rparr>]))
                         else (Inr None, results)))))\<rparr>"

text \<open>\<open>xs.slice(0, n)\<close> for an integer \<open>n\<close>: a negative \<open>n\<close> counts from the end.\<close>

definition slice0 :: "'a list \<Rightarrow> int \<Rightarrow> 'a list" where
  "slice0 xs n = (if n \<ge> 0 then take (nat n) xs else take (length xs - nat (- n)) xs)"

text \<open>
  \<open>POST /search\<close>: \<open>None\<close> when the handler does not return, else the error it rejects
  with or what it sends. \<open>search_limit\<close>, \<open>search_caseSensitive\<close>, \<open>search_query\<close> and
  \<open>search_files\<close> are the locals of the handler before the scan. \<open>Array.prototype.sort\<close>
  is stable.
\<close>

definition search_limit :: "search_body \<Rightarrow> int" where
  "search_limit b = (case s_limit b of None \<Rightarrow> 20 | Some n \<Rightarrow> n)"

definition search_caseSensitive :: "search_body \<Rightarrow> bool" where
  "search_caseSensitive b = (case s_caseSensitive b of None \<Rightarrow> False | Some c \<Rightarrow> c)"

definition search_query :: "runtime \<Rightarrow> search_body \<Rightarrow> string" where
  "search_query rt b =
     (if search_caseSensitive b then the (s_query b) else toLowerCase rt (the (s_query b)))"

definition search_files :: "app \<Rightarrow> search_body \<Rightarrow> tfile list" where
  "search_files ap b =
     (if \<not> falsy (s_folder b)
      then filter (\<lambda>f. starts_with (path f) (the (s_folder b))) (getMarkdownFiles ap)
      else getMarkdownFiles ap)"

definition search_route ::
  "runtime \<Rightarrow> app \<Rightarrow> search_body option \<Rightarrow> (string + search_result list reply) option" where
  "search_route rt ap body =
     (case body of
        None \<Rightarrow> Some (Inl ''Cannot destructure property of undefined'')
      | Some b \<Rightarrow>
          if falsy (s_query b) then Some (Inr (Failure 400 ''INVALID_PATH'' ''Query is required''))
          else
            (case processBatch (search_files ap b)
                    (search_processor rt ap (search_limit b) (search_caseSensitive b) (search_query rt b))
                    50 [] of
               None \<Rightarrow> None
             | Some finished \<Rightarrow>
                 Some (Inr (Data (slice0 (sort_key (\<lambda>r. - int (length (sr_matches r))) (snd finished))
                                    (search_limit b))))))"

section \<open>routes/tags.ts: the tag listing\<close>

record tag_count =
  tc_tag :: string
  tc_count :: nat

text \<open>\<open>tagCounts.set(t, (tagCounts.get(t) || 0) + 1)\<close> on a map in insertion order.\<close>

definition bump :: "string \<Rightarrow> (string \<times> nat) list \<Rightarrow> (string \<times> nat) list" where
  "bump t m =
     (if t \<in> set (map fst m) then map (\<lambda>kc. if fst kc = t then (fst kc, snd kc + 1) else kc) m
      else m @ [(t, 1)])"

definition count_file_tags :: "runtime \<Rightarrow> cached_metadata option \<Rightarrow> (string \<times> nat) list \<Rightarrow> (string \<times> nat) list" where
  "count_file_tags rt cache m =
     (let m1 = (case (case (case cache of None \<Rightarrow> None | Some c \<Rightarrow> frontmatter c) of
                        None \<Rightarrow> None
                      | Some fm \<Rightarrow> map_of fm ''tags'') of
                  Some (JArr fmTags) \<Rightarrow> fold (\<lambda>t. bump (String_of rt t)) fmTags m
                | _ \<Rightarrow> m)
      in case (case cache of None \<Rightarrow> None | Some c \<Rightarrow> tags c) of
           None \<Rightarrow> m1
         | Some inline \<Rightarrow> fold (\<lambda>t. bump (tag_name t)) inline m1)"

fun count_tags :: "runtime \<Rightarrow> app \<Rightarrow> tfile list \<Rightarrow> (string \<times> nat) list \<Rightarrow> (string \<times> nat) list" where
  "count_tags rt ap [] m = m"
| "count_tags rt ap (file # rest) m =
     (case getFileCache ap file of
        Inl err \<Rightarrow> count_tags rt ap rest m
      | Inr cache \<Rightarrow> count_tags rt ap rest (count_file_tags rt cache m))"

text \<open>\<open>GET /tags\<close>\<close>

definition tags_route :: "runtime \<Rightarrow> app \<Rightarrow> tag_count list reply" where
  "tags_route rt ap =
     Data (sort_key (\<lambda>tc. - int (tc_count tc))
             (map (\<lambda>kc. \<lparr>tc_tag = fst kc, tc_count = snd kc\<rparr>)
                (count_tags rt ap (getMarkdownFiles ap) [])))"

subsection \<open>Notions used to state error isolation\<close>

text \<open>A note is readable when neither reading its text nor looking up its metadata throws.\<close>

definition readable :: "app \<Rightarrow> tfile \<Rightarrow> bool" where
  "readable ap file =
     ((case read ap file of Inl err \<Rightarrow> False | Inr content \<Rightarrow> True) \<and>
      (case getFileCache ap file of Inl err \<Rightarrow> False | Inr cache \<Rightarrow> True))"

definition cache_ok :: "app \<Rightarrow> tfile \<Rightarrow> bool" where
  "cache_ok ap file = (case getFileCache ap file of Inl err \<Rightarrow> False | Inr cache \<Rightarrow> True)"

text \<open>The same vault, listing only its readable notes.\<close>

definition without_unreadable :: "app \<Rightarrow> app" where
  "without_unreadable ap = ap\<lparr>getMarkdownFiles := filter (readable ap) (getMarkdownFiles ap)\<rparr>"

definition without_uncached :: "app \<Rightarrow> app" where
  "without_uncached ap = ap\<lparr>getMarkdownFiles := filter (cache_ok ap) (getMarkdownFiles ap)\<rparr>"

text \<open>What the search processor pushes for a file while there is room in \<open>results\<close>.\<close>

definition search_hit :: "runtime \<Rightarrow> app \<Rightarrow> bool \<Rightarrow> string \<Rightarrow> tfile \<Rightarrow> search_result option" where
  "search_hit rt ap caseSensitive searchQuery file =
     (case read ap file of
        Inl err \<Rightarrow> None
      | Inr content \<Rightarrow>
          (case getFileCache ap file of
             Inl err \<Rightarrow> None
           | Inr cache \<Rightarrow>
               (let matches2 = content_matches rt caseSensitive searchQuery content @
                               frontmatter_matches rt caseSensitive searchQuery cache
                in if matches2 = [] then None
                   else (case fileToNoteInfo ap file cache of
                           Inl err \<Rightarrow> None
                         | Inr info \<Rightarrow> Some \<lparr>sr_note = info, sr_matches = matches2\<rparr>))))"

subsection \<open>A vault with an unreadable note\<close>

definition fBad :: tfile where
  "fBad = \<lparr>path = ''bad.md'', basename = ''bad'', extension = ''md'', parent = Some ''/''\<rparr>"

definition apBad :: app where
  "apBad =
     apAB\<lparr>getMarkdownFiles := [fA, fBad, fB],
          read := (\<lambda>f. if path f = ''bad.md'' then Inl ''EIO'' else read apAB f),
          getFileCache :=
            (\<lambda>f. if path f = ''bad.md'' then Inl ''EIO''
                 else if path f = ''A.md''
                 then Inr (Some ((cache_link ''B'')\<lparr>tags := Some [''#todo'']\<rparr>))
                 else getFileCache apAB f)\<rparr>"

definition q_search :: search_body where
  "q_search = \<lparr>s_query = Some ''[['', s_folder = None, s_limit = None, s_caseSensitive = None\<rparr>"

text \<open>A processor that throws on one item and returns \<open>null\<close> on another.\<close>

definition flaky :: "nat \<Rightarrow> string + nat option" where
  "flaky n = (if n = 3 then Inl ''boom'' else if n = 4 then Inr None else Inr (Some (n * 10)))"

section \<open>Properties of the dispatcher\<close>

lemma falsy_iff: "falsy x \<longleftrightarrow> (x = None \<or> x = Some [])"
  by (cases x) auto

lemma parseBody_data_within:
  "sz + sum_list (map length rest) \<le> MAX_BODY_SIZE \<Longrightarrow>
   parseBody_data parse End sz chunks rest =
     \<lparr>req_destroyed = False, body_promise = Inr (body_of_text parse (concat (chunks @ rest)))\<rparr>"
  by (induction rest arbitrary: sz chunks) (auto simp: Let_def body_of_text_def split: option.splits)

lemma parseBody_data_over:
  "sz \<le> MAX_BODY_SIZE \<Longrightarrow> MAX_BODY_SIZE < sz + sum_list (map length rest) \<Longrightarrow>
   parseBody_data parse fin sz chunks rest =
     \<lparr>req_destroyed = True, body_promise = Inl ''Request body too large''\<rparr>"
  by (induction rest arbitrary: sz chunks) (auto simp: Let_def)

text \<open>A body that \<open>parseBody\<close> resolves has left the request alone.\<close>

lemma parseBody_data_resolved:
  "body_promise (parseBody_data parse fin sz chunks rest) = Inr b \<Longrightarrow>
   \<not> req_destroyed (parseBody_data parse fin sz chunks rest)"
  by (induction rest arbitrary: sz chunks) (auto simp: Let_def split: if_splits)

lemma execute_route_intact: "(execute_route run)\<lparr>destroyed := False\<rparr> = execute_route run"
  by (simp add: execute_route_def Let_def split: sum.splits)

lemma match_routes_skip:
  "\<forall>q\<in>set pre. route_method q \<noteq> meth \<or> pattern q p = None \<Longrightarrow>
   match_routes rt (pre @ rs) req meth p = match_routes rt rs req meth p"
  by (induction pre) auto

text \<open>
  A request that passes the gate and whose first matching route is \<open>r\<close> is handed to
  the body parser and then to the handler of \<open>r\<close>.
\<close>

lemma handleRequest_routed:
  assumes auth: "checkAuth srv req"
    and nohealth: "\<not> (req_pathname req = ''/health'' \<and> request_method req = ''GET'')"
    and rs: "routes srv = pre @ r # rest"
    and pre: "\<forall>q\<in>set pre. route_method q \<noteq> request_method req \<or> pattern q (req_pathname req) = None"
    and m: "route_method r = request_method req"
    and pat: "pattern r (req_pathname req) = Some groups"
    and ps: "extract_params rt groups (paramNames r) 0 Map.empty = Inr params"
  shows "handleRequest rt ap srv req =
     (case body_promise (parseBody rt req) of
        Inl err \<Rightarrow>
          if err = ''Request body too large'' then
            \<lparr>responses = [sendError 413 ''INTERNAL_ERROR'' ''Request body too large (max 10MB)''],
             thrown = None, destroyed = req_destroyed (parseBody rt req)\<rparr>
          else
            \<lparr>responses = [sendError 400 ''INTERNAL_ERROR'' ''Failed to parse request body''],
             thrown = None, destroyed = req_destroyed (parseBody rt req)\<rparr>
      | Inr b \<Rightarrow> execute_route (handler r req params b))"
proof -
  have "handleRequest rt ap srv req =
        match_routes rt (pre @ r # rest) req (request_method req) (req_pathname req)"
    using auth nohealth rs by (auto simp: handleRequest_def Let_def)
  also have "\<dots> = match_routes rt (r # rest) req (request_method req) (req_pathname req)"
    using pre by (rule match_routes_skip)
  finally have routed: "handleRequest rt ap srv req =
     (case body_promise (parseBody rt req) of
        Inl err \<Rightarrow>
          if err = ''Request body too large'' then
            \<lparr>responses = [sendError 413 ''INTERNAL_ERROR'' ''Request body too large (max 10MB)''],
             thrown = None, destroyed = req_destroyed (parseBody rt req)\<rparr>
          else
            \<lparr>responses = [sendError 400 ''INTERNAL_ERROR'' ''Failed to parse request body''],
             thrown = None, destroyed = req_destroyed (parseBody rt req)\<rparr>
      | Inr b \<Rightarrow> (execute_route (handler r req params b))\<lparr>destroyed := req_destroyed (parseBody rt req)\<rparr>)"
    using m pat ps by (simp add: Let_def)
  show ?thesis
  proof (cases "body_promise (parseBody rt req)")
    case (Inl err)
    then show ?thesis using routed by simp
  next
    case (Inr b)
    then have "\<not> req_destroyed (parseBody rt req)"
      unfolding parseBody_def by (rule parseBody_data_resolved)
    then show ?thesis using routed Inr by (simp add: execute_route_intact)
  qed
qed

lemma execute_route_timeout:
  "deadline_exceeded run \<Longrightarrow>
   execute_route run =
     \<lparr>responses = written_before run ROUTE_TIMEOUT @
                  (if written_before run ROUTE_TIMEOUT = []
                   then [sendError 504 ''INTERNAL_ERROR'' ''Request timeout''] else []),
      thrown = None, destroyed = False\<rparr>"
  by (auto simp: deadline_exceeded_def execute_route_def withTimeout_def settle_time_def Let_def
           split: option.splits)

lemmas example_server_defs =
  rt0_def ap0_def srv0_def route_echo_def route_slow_def route_late_def
  req_exact_def req_over_def req_probe_def req_owner_def req_slow_def req_late_def

lemma example_auth:
  "checkAuth srv0 req_exact" "checkAuth srv0 req_over" "checkAuth srv0 req_owner"
  "checkAuth srv0 req_slow" "checkAuth srv0 req_late" "\<not> checkAuth srv0 req_probe"
  by (simp_all add: example_server_defs checkAuth_def checkAuthWith_def Buffer_from_def
        timingSafeEqual_def Let_def)

subsection \<open>C5: the authentication gate\<close>

text \<open>
  C5. With no token configured (\<open>null\<close> or the empty string) \<open>checkAuth\<close> accepts every
  request. With a token configured it rejects a request whose Authorization header is
  absent, whose scheme (the first space-separated field) is not \<open>Bearer\<close>, or whose
  presented token (the second field) differs in byte length from the secret; in that last
  case the result is \<open>false\<close> whatever the byte comparison would answer, so the comparison
  is not consulted. It accepts exactly when the scheme is \<open>Bearer\<close> and the presented
  token's bytes are the secret's bytes.
\<close>

theorem checkAuth_contract:
  "(falsy (authToken srv) \<longrightarrow> checkAuth srv req) \<and>
   (\<not> falsy (authToken srv) \<longrightarrow>
      (falsy (req_authorization req) \<longrightarrow> \<not> checkAuth srv req) \<and>
      (\<forall>h. req_authorization req = Some h \<and> nth_opt (split CHR '' '' h) 0 \<noteq> Some ''Bearer''
            \<longrightarrow> \<not> checkAuth srv req) \<and>
      (\<forall>h t. req_authorization req = Some h \<and> nth_opt (split CHR '' '' h) 1 = Some t \<and>
              length (Buffer_from t) \<noteq> length (Buffer_from (the (authToken srv)))
            \<longrightarrow> (\<forall>compare. \<not> checkAuthWith compare (authToken srv) (req_authorization req))) \<and>
      (checkAuth srv req \<longleftrightarrow>
         (\<exists>h t. req_authorization req = Some h \<and>
                nth_opt (split CHR '' '' h) 0 = Some ''Bearer'' \<and>
                nth_opt (split CHR '' '' h) 1 = Some t \<and>
                Buffer_from t = Buffer_from (the (authToken srv)))))"
  by (cases "authToken srv"; cases "req_authorization req";
      cases "nth_opt (split CHR '' '' (the (req_authorization req))) (Suc 0)")
     (auto simp: checkAuth_def checkAuthWith_def Let_def timingSafeEqual_def Buffer_from_def falsy_iff
           split: sum.splits)

theorem checkAuth_contract_witness:
  "checkAuth (srv0\<lparr>authToken := None\<rparr>) req_probe \<and>
   \<not> checkAuth srv0 req_probe \<and>
   \<not> checkAuth srv0 (req_probe\<lparr>req_authorization := Some ''Basic s3cret''\<rparr>) \<and>
   \<not> checkAuthWith (\<lambda>a b. Inr True) (authToken srv0) (Some ''Bearer s3cre'') \<and>
   \<not> checkAuth srv0 (req_probe\<lparr>req_authorization := Some ''Bearer s3creT''\<rparr>) \<and>
   checkAuth srv0 req_owner"
proof -
  have none: "falsy (authToken (srv0\<lparr>authToken := None\<rparr>))"
    by simp
  have tok: "\<not> falsy (authToken srv0)"
    by (simp add: srv0_def)
  have absent: "falsy (req_authorization req_probe)"
    by (simp add: req_probe_def)
  have basic: "req_authorization (req_probe\<lparr>req_authorization := Some ''Basic s3cret''\<rparr>) = Some ''Basic s3cret''
      \<and> nth_opt (split CHR '' '' ''Basic s3cret'') 0 \<noteq> Some ''Bearer''"
    by simp
  have short: "req_authorization (req_probe\<lparr>req_authorization := Some ''Bearer s3cre''\<rparr>) = Some ''Bearer s3cre''
      \<and> nth_opt (split CHR '' '' ''Bearer s3cre'') 1 = Some ''s3cre''
      \<and> length (Buffer_from ''s3cre'') \<noteq> length (Buffer_from (the (authToken srv0)))"
    by (simp add: srv0_def Buffer_from_def)
  have wrong: "\<not> (\<exists>h t. req_authorization (req_probe\<lparr>req_authorization := Some ''Bearer s3creT''\<rparr>) = Some h \<and>
                nth_opt (split CHR '' '' h) 0 = Some ''Bearer'' \<and>
                nth_opt (split CHR '' '' h) 1 = Some t \<and>
                Buffer_from t = Buffer_from (the (authToken srv0)))"
    by (simp add: srv0_def Buffer_from_def)
  have right: "\<exists>h t. req_authorization req_owner = Some h \<and>
                nth_opt (split CHR '' '' h) 0 = Some ''Bearer'' \<and>
                nth_opt (split CHR '' '' h) 1 = Some t \<and>
                Buffer_from t = Buffer_from (the (authToken srv0))"
    by (simp add: srv0_def req_owner_def Buffer_from_def)
  show ?thesis
    using checkAuth_contract [of "srv0\<lparr>authToken := None\<rparr>" req_probe]
      checkAuth_contract [of srv0 req_probe]
      checkAuth_contract [of srv0 "req_probe\<lparr>req_authorization := Some ''Basic s3cret''\<rparr>"]
      checkAuth_contract [of srv0 "req_probe\<lparr>req_authorization := Some ''Bearer s3cre''\<rparr>"]
      checkAuth_contract [of srv0 "req_probe\<lparr>req_authorization := Some ''Bearer s3creT''\<rparr>"]
      checkAuth_contract [of srv0 req_owner]
      none tok absent basic short wrong right
    by (simp del: falsy.simps split.simps nth_opt.simps)
qed

subsection \<open>C4: the body-size cap\<close>

text \<open>
  The boundary for a request that passes the gate and matches a route. When the body
  stream ends cleanly after exactly \<open>MAX_BODY_SIZE\<close> (10 MiB) bytes, however they are
  split into chunks, \<open>parseBody\<close> resolves without touching the request and the route's
  handler is run on the parsed body. When the chunks total one byte more, \<open>parseBody\<close>
  destroys the request and rejects with "Request body too large"; \<open>handleRequest\<close> then
  takes the 413 branch, not the 400 branch of a parse failure, and writes the 413 to the
  destroyed connection, so that nothing is delivered.
\<close>

lemma body_cap_routed:
  assumes auth: "checkAuth srv req"
    and nohealth: "\<not> (req_pathname req = ''/health'' \<and> request_method req = ''GET'')"
    and rs: "routes srv = pre @ r # rest"
    and pre: "\<forall>q\<in>set pre. route_method q \<noteq> request_method req \<or> pattern q (req_pathname req) = None"
    and m: "route_method r = request_method req"
    and pat: "pattern r (req_pathname req) = Some groups"
    and ps: "extract_params rt groups (paramNames r) 0 Map.empty = Inr params"
  shows "(req_end req = End \<and> sum_list (map length (req_chunks req)) = MAX_BODY_SIZE \<longrightarrow>
            parseBody rt req =
              \<lparr>req_destroyed = False,
               body_promise = Inr (body_of_text (JSON_parse rt) (concat (req_chunks req)))\<rparr> \<and>
            handleRequest rt ap srv req =
              execute_route (handler r req params (body_of_text (JSON_parse rt) (concat (req_chunks req))))) \<and>
         (sum_list (map length (req_chunks req)) = MAX_BODY_SIZE + 1 \<longrightarrow>
            parseBody rt req =
              \<lparr>req_destroyed = True, body_promise = Inl ''Request body too large''\<rparr> \<and>
            handleRequest rt ap srv req =
              \<lparr>responses = [sendError 413 ''INTERNAL_ERROR'' ''Request body too large (max 10MB)''],
               thrown = None, destroyed = True\<rparr> \<and>
            responses (handleRequest rt ap srv req) \<noteq>
              [sendError 400 ''INTERNAL_ERROR'' ''Failed to parse request body''] \<and>
            delivered (handleRequest rt ap srv req) = [])"
proof (intro conjI impI)
  assume a: "req_end req = End \<and> sum_list (map length (req_chunks req)) = MAX_BODY_SIZE"
  then show pb: "parseBody rt req =
      \<lparr>req_destroyed = False,
       body_promise = Inr (body_of_text (JSON_parse rt) (concat (req_chunks req)))\<rparr>"
    using parseBody_data_within [of 0 "req_chunks req" "JSON_parse rt" "[]"]
    by (simp add: parseBody_def)
  show "handleRequest rt ap srv req =
      execute_route (handler r req params (body_of_text (JSON_parse rt) (concat (req_chunks req))))"
    using handleRequest_routed [OF auth nohealth rs pre m pat ps] pb by simp
next
  assume a: "sum_list (map length (req_chunks req)) = MAX_BODY_SIZE + 1"
  then show pb: "parseBody rt req =
      \<lparr>req_destroyed = True, body_promise = Inl ''Request body too large''\<rparr>"
    using parseBody_data_over [of 0 "req_chunks req" "JSON_parse rt" "req_end req" "[]"]
    by (simp add: parseBody_def)
  show large: "handleRequest rt ap srv req =
      \<lparr>responses = [sendError 413 ''INTERNAL_ERROR'' ''Request body too large (max 10MB)''],
       thrown = None, destroyed = True\<rparr>"
    using handleRequest_routed [OF auth nohealth rs pre m pat ps] pb by simp
  show "responses (handleRequest rt ap srv req) \<noteq>
      [sendError 400 ''INTERNAL_ERROR'' ''Failed to parse request body'']"
    unfolding large by (simp add: sendError_def)
  show "delivered (handleRequest rt ap srv req) = []"
    unfolding large by (simp add: delivered_def)
qed

text \<open>
  C4. A body of exactly 10 MiB is accepted and reaches the handler, whose response is
  delivered. A body one byte larger selects the 413 "Request body too large (max 10MB)"
  response and not the 400 one, but the rejection is not carried by it: \<open>parseBody\<close> has
  called \<open>req.destroy()\<close> before rejecting, the 413 is written to the destroyed
  connection, and no response is delivered. Shown on the example server for a POST /echo
  of \<open>MAX_BODY_SIZE + 1\<close> bytes in two chunks, next to one of \<open>MAX_BODY_SIZE\<close> bytes.
\<close>

theorem oversize_413_not_delivered:
  "sum_list (map length (req_chunks req_over)) = MAX_BODY_SIZE + 1 \<and>
   parseBody rt0 req_over =
     \<lparr>req_destroyed = True, body_promise = Inl ''Request body too large''\<rparr> \<and>
   handleRequest rt0 ap0 srv0 req_over =
     \<lparr>responses = [sendError 413 ''INTERNAL_ERROR'' ''Request body too large (max 10MB)''],
      thrown = None, destroyed = True\<rparr> \<and>
   delivered (handleRequest rt0 ap0 srv0 req_over) = [] \<and>
   sum_list (map length (req_chunks req_exact)) = MAX_BODY_SIZE \<and>
   handleRequest rt0 ap0 srv0 req_exact =
     execute_route (handler route_echo req_exact Map.empty (Raw (replicate MAX_BODY_SIZE CHR ''a''))) \<and>
   delivered (handleRequest rt0 ap0 srv0 req_exact) = [sendJson (JStr ''echo'')]"
proof -
  have nh: "\<not> (req_pathname req_exact = ''/health'' \<and> request_method req_exact = ''GET'')"
    "\<not> (req_pathname req_over = ''/health'' \<and> request_method req_over = ''GET'')"
    by (simp_all add: req_exact_def req_over_def)
  have rs: "routes srv0 = [] @ route_echo # [route_slow, route_late]"
    by (simp add: srv0_def)
  have pre: "\<forall>q\<in>set []. route_method q \<noteq> request_method req_exact \<or> pattern q (req_pathname req_exact) = None"
    "\<forall>q\<in>set []. route_method q \<noteq> request_method req_over \<or> pattern q (req_pathname req_over) = None"
    by simp_all
  have m: "route_method route_echo = request_method req_exact" "route_method route_echo = request_method req_over"
    by (simp_all add: route_echo_def req_exact_def req_over_def request_method_def)
  have pat: "pattern route_echo (req_pathname req_exact) = Some []"
    "pattern route_echo (req_pathname req_over) = Some []"
    by (simp_all add: route_echo_def req_exact_def req_over_def)
  have ps: "extract_params rt0 [] (paramNames route_echo) 0 Map.empty = Inr Map.empty"
    by (simp add: route_echo_def)
  have exact: "req_end req_exact = End" "sum_list (map length (req_chunks req_exact)) = MAX_BODY_SIZE"
    by (simp_all add: req_exact_def)
  have over: "sum_list (map length (req_chunks req_over)) = MAX_BODY_SIZE + 1"
    by (simp add: req_over_def)
  have raw: "body_of_text (JSON_parse rt0) (concat (req_chunks req_exact)) = Raw (replicate MAX_BODY_SIZE CHR ''a'')"
    by (simp add: body_of_text_def rt0_def req_exact_def MAX_BODY_SIZE_def)
  have run: "execute_route (handler route_echo req_exact Map.empty (Raw (replicate MAX_BODY_SIZE CHR ''a'')))
      = \<lparr>responses = [sendJson (JStr ''echo'')], thrown = None, destroyed = False\<rparr>"
    by (simp add: route_echo_def execute_route_def withTimeout_def settle_time_def written_before_def
          ROUTE_TIMEOUT_def)
  have e: "handleRequest rt0 ap0 srv0 req_exact =
      execute_route (handler route_echo req_exact Map.empty (Raw (replicate MAX_BODY_SIZE CHR ''a'')))"
    using body_cap_routed [OF example_auth(1) nh(1) rs pre(1) m(1) pat(1) ps, of ap0] exact raw
    by simp
  have o: "parseBody rt0 req_over =
        \<lparr>req_destroyed = True, body_promise = Inl ''Request body too large''\<rparr>"
      "handleRequest rt0 ap0 srv0 req_over =
        \<lparr>responses = [sendError 413 ''INTERNAL_ERROR'' ''Request body too large (max 10MB)''],
         thrown = None, destroyed = True\<rparr>"
      "delivered (handleRequest rt0 ap0 srv0 req_over) = []"
    using body_cap_routed [OF example_auth(2) nh(2) rs pre(2) m(2) pat(2) ps, of ap0] over
    by blast+
  have d: "delivered (handleRequest rt0 ap0 srv0 req_exact) = [sendJson (JStr ''echo'')]"
    unfolding e run by (simp add: delivered_def)
  show ?thesis
    using over o exact(2) e d by blast
qed

subsection \<open>C6: the health endpoint\<close>

text \<open>
  C6. For a GET /health request that fails the auth check the only response is
  \<open>{ok: true, data: {status: "healthy"}}\<close>, the same for every vault and runtime; a
  request that passes the check gets the status together with the version string, the
  vault's name and the number of markdown files.
\<close>

theorem health_noninterference:
  assumes "req_pathname req = ''/health''" and "request_method req = ''GET''"
  shows "(\<not> checkAuth srv req \<longrightarrow>
            (\<forall>rt ap. handleRequest rt ap srv req =
               \<lparr>responses = [sendJson (JObj [(''ok'', JBool True),
                                             (''data'', JObj [(''status'', JStr ''healthy'')])])],
                thrown = None, destroyed = False\<rparr>) \<and>
            (\<forall>rt ap rt' ap'. handleRequest rt ap srv req = handleRequest rt' ap' srv req)) \<and>
         (checkAuth srv req \<longrightarrow>
            (\<forall>rt ap. handleRequest rt ap srv req =
               \<lparr>responses = [sendJson (JObj [(''ok'', JBool True),
                                             (''data'', JObj [(''status'', JStr ''healthy''),
                                                              (''version'', JStr VERSION),
                                                              (''vault'', JStr (getName ap)),
                                                              (''fileCount'', JNum (int (length (getMarkdownFiles ap))))])])],
                thrown = None, destroyed = False\<rparr>))"
  using assms by (simp add: handleRequest_def Let_def)

theorem health_noninterference_witness:
  "handleRequest rt0 ap0 srv0 req_probe =
     \<lparr>responses = [sendJson (JObj [(''ok'', JBool True), (''data'', JObj [(''status'', JStr ''healthy'')])])],
      thrown = None, destroyed = False\<rparr> \<and>
   handleRequest rt0 ap0 srv0 req_probe = handleRequest rt0 (ap0\<lparr>getName := ''other''\<rparr>) srv0 req_probe \<and>
   handleRequest rt0 ap0 srv0 req_owner =
     \<lparr>responses = [sendJson (JObj [(''ok'', JBool True),
                                   (''data'', JObj [(''status'', JStr ''healthy''),
                                                    (''version'', JStr ''0.1.2''),
                                                    (''vault'', JStr ''vault''),
                                                    (''fileCount'', JNum 0)])])],
      thrown = None, destroyed = False\<rparr>"
proof -
  have p: "req_pathname req_probe = ''/health''" "request_method req_probe = ''GET''"
    "req_pathname req_owner = ''/health''" "request_method req_owner = ''GET''"
    by (simp_all add: req_probe_def req_owner_def request_method_def)
  have v: "getName ap0 = ''vault''" "getMarkdownFiles ap0 = []"
    by (simp_all add: ap0_def)
  show ?thesis
    using health_noninterference [OF p(1) p(2), of srv0] health_noninterference [OF p(3) p(4), of srv0]
      example_auth(6) example_auth(3) v
    by (simp add: VERSION_def)
qed

subsection \<open>C7: the timeout path\<close>

text \<open>
  C7. For a request that passes the gate, matches a route and has its body parsed: when
  the handler's promise has not settled by the 30-second deadline, the responses on
  \<open>res\<close> when \<open>handleRequest\<close> returns are those the handler ended before the deadline,
  followed by the 504 "Request timeout" error exactly when there were none; nothing is
  thrown. So the timeout path writes the 504 if and only if no response was written yet,
  and it never writes more than that one response.
\<close>

theorem timeout_single_response:
  assumes auth: "checkAuth srv req"
    and nohealth: "\<not> (req_pathname req = ''/health'' \<and> request_method req = ''GET'')"
    and rs: "routes srv = pre @ r # rest"
    and pre: "\<forall>q\<in>set pre. route_method q \<noteq> request_method req \<or> pattern q (req_pathname req) = None"
    and m: "route_method r = request_method req"
    and pat: "pattern r (req_pathname req) = Some groups"
    and ps: "extract_params rt groups (paramNames r) 0 Map.empty = Inr params"
    and pb: "body_promise (parseBody rt req) = Inr b"
    and late: "deadline_exceeded (handler r req params b)"
  shows "handleRequest rt ap srv req =
     \<lparr>responses = written_before (handler r req params b) ROUTE_TIMEOUT @
                  (if written_before (handler r req params b) ROUTE_TIMEOUT = []
                   then [sendError 504 ''INTERNAL_ERROR'' ''Request timeout''] else []),
      thrown = None, destroyed = False\<rparr>"
  using handleRequest_routed [OF auth nohealth rs pre m pat ps] pb execute_route_timeout [OF late]
  by simp

theorem timeout_single_response_witness:
  "handleRequest rt0 ap0 srv0 req_slow =
     \<lparr>responses = [sendError 504 ''INTERNAL_ERROR'' ''Request timeout''], thrown = None,
      destroyed = False\<rparr> \<and>
   handleRequest rt0 ap0 srv0 req_late =
     \<lparr>responses = [sendJson (JStr ''partial'')], thrown = None, destroyed = False\<rparr>"
proof -
  have nh: "\<not> (req_pathname req_slow = ''/health'' \<and> request_method req_slow = ''GET'')"
    "\<not> (req_pathname req_late = ''/health'' \<and> request_method req_late = ''GET'')"
    by (simp_all add: req_slow_def req_late_def)
  have rs: "routes srv0 = [route_echo] @ route_slow # [route_late]"
    "routes srv0 = [route_echo, route_slow] @ route_late # []"
    by (simp_all add: srv0_def)
  have pre: "\<forall>q\<in>set [route_echo]. route_method q \<noteq> request_method req_slow \<or> pattern q (req_pathname req_slow) = None"
    "\<forall>q\<in>set [route_echo, route_slow]. route_method q \<noteq> request_method req_late \<or> pattern q (req_pathname req_late) = None"
    by (simp_all add: route_echo_def route_slow_def req_slow_def req_late_def)
  have m: "route_method route_slow = request_method req_slow" "route_method route_late = request_method req_late"
    by (simp_all add: route_slow_def route_late_def req_slow_def req_late_def request_method_def)
  have pat: "pattern route_slow (req_pathname req_slow) = Some []"
    "pattern route_late (req_pathname req_late) = Some [''n'']"
    by (simp_all add: route_slow_def route_late_def req_slow_def req_late_def)
  have ps: "extract_params rt0 [] (paramNames route_slow) 0 Map.empty = Inr Map.empty"
    "extract_params rt0 [''n''] (paramNames route_late) 0 Map.empty = Inr [''name'' \<mapsto> ''n'']"
    by (simp_all add: route_slow_def route_late_def rt0_def)
  have pb: "body_promise (parseBody rt0 req_slow) = Inr Undefined"
    "body_promise (parseBody rt0 req_late) = Inr Undefined"
    by (simp_all add: parseBody_def req_slow_def req_late_def)
  have late: "deadline_exceeded (handler route_slow req_slow Map.empty Undefined)"
    "deadline_exceeded (handler route_late req_late [''name'' \<mapsto> ''n''] Undefined)"
    by (simp_all add: deadline_exceeded_def route_slow_def route_late_def ROUTE_TIMEOUT_def)
  have w: "written_before (handler route_slow req_slow Map.empty Undefined) ROUTE_TIMEOUT = []"
    "written_before (handler route_late req_late [''name'' \<mapsto> ''n''] Undefined) ROUTE_TIMEOUT
       = [sendJson (JStr ''partial'')]"
    by (simp_all add: written_before_def route_slow_def route_late_def ROUTE_TIMEOUT_def)
  show ?thesis
    using timeout_single_response [OF example_auth(4) nh(1) rs(1) pre(1) m(1) pat(1) ps(1) pb(1) late(1), of ap0]
      timeout_single_response [OF example_auth(5) nh(2) rs(2) pre(2) m(2) pat(2) ps(2) pb(2) late(2), of ap0]
      w
    by simp
qed

section \<open>Properties of the graph query\<close>

declare traverse.simps [simp del] traverse_out.simps [simp del] traverse_in.simps [simp del]

lemma endpoints_known_append:
  "endpoints_known seen (h @ h') \<longleftrightarrow> endpoints_known seen h \<and> endpoints_known (seen \<union> added h) h'"
  by (induction seen h rule: endpoints_known.induct) auto

lemma pushed_append: "pushed (h @ h') = pushed h @ pushed h'"
  by (induction h rule: pushed.induct) auto

lemma inserted_append: "inserted (h @ h') = inserted h @ inserted h'"
  by (induction h rule: inserted.induct) auto

lemma added_inserted: "added h = set (inserted h)"
  by (induction h rule: added.induct) auto

lemma consistent_gstate0: "consistent gstate0"
  by (simp add: consistent_def gstate0_def)

lemma node_ids_addNode: "node_ids (addNode f s) = insert (strip_md (path f)) (node_ids s)"
  by (auto simp: addNode_def node_ids_def Let_def)

lemma node_ids_pushEdge: "node_ids (pushEdge e s) = node_ids s"
  by (simp add: pushEdge_def node_ids_def)

lemma node_ids_visited: "node_ids (s\<lparr>visited := v\<rparr>) = node_ids s"
  by (simp add: node_ids_def)

lemma consistent_visited: "consistent (s\<lparr>visited := v\<rparr>) = consistent s"
  by (simp add: consistent_def)

lemma consistent_node_ids: "consistent s \<Longrightarrow> node_ids s = added (history s)"
  by (simp add: consistent_def node_ids_def added_inserted)

lemma consistent_addNode: "consistent s \<Longrightarrow> consistent (addNode f s)"
  by (auto simp: consistent_def addNode_def Let_def inserted_append pushed_append
        endpoints_known_append)

lemma consistent_pushEdge:
  "consistent s \<Longrightarrow> source e \<in> node_ids s \<Longrightarrow> target e \<in> node_ids s \<Longrightarrow> consistent (pushEdge e s)"
  using consistent_node_ids [of s]
  by (auto simp: consistent_def pushEdge_def inserted_append pushed_append endpoints_known_append)

lemma consistent_out_step:
  "consistent s \<Longrightarrow> strip_md (path file) \<in> node_ids s \<Longrightarrow>
   consistent (pushEdge (out_edge file tt) (addNode (fst tt) s))"
  by (rule consistent_pushEdge) (auto simp: consistent_addNode node_ids_addNode out_edge_def)

lemma consistent_in_step:
  "consistent s \<Longrightarrow> strip_md (path file) \<in> node_ids s \<Longrightarrow>
   consistent (pushEdge (in_edge file other) (addNode other s))"
  by (rule consistent_pushEdge) (auto simp: consistent_addNode node_ids_addNode in_edge_def)


lemma traverse_invariant:
  "consistent s \<Longrightarrow>
     consistent (snd (traverse ap depth direction startPath currentDepth s)) \<and>
     node_ids s \<subseteq> node_ids (snd (traverse ap depth direction startPath currentDepth s))"
  "consistent s \<Longrightarrow> strip_md (path fl) \<in> node_ids s \<Longrightarrow>
     consistent (snd (traverse_out ap depth direction fl currentDepth outs s)) \<and>
     node_ids s \<subseteq> node_ids (snd (traverse_out ap depth direction fl currentDepth outs s))"
  "consistent s \<Longrightarrow> strip_md (path fl) \<in> node_ids s \<Longrightarrow>
     consistent (traverse_in ap depth direction fl currentDepth fs s) \<and>
     node_ids s \<subseteq> node_ids (traverse_in ap depth direction fl currentDepth fs s)"
proof (induction ap depth direction startPath currentDepth s
    and ap depth direction fl currentDepth outs s
    and ap depth direction fl currentDepth fs s
    rule: traverse_traverse_out_traverse_in.induct)
  case (1 ap depth direction startPath currentDepth s)
  show ?case
  proof (cases "depth < currentDepth \<or> startPath \<in> visited s")
    case True
    with "1.prems" show ?thesis by (auto simp: traverse.simps)
  next
    case False
    define s1 where "s1 = s\<lparr>visited := insert startPath (visited s)\<rparr>"
    have c1: "consistent s1" and n1: "node_ids s1 = node_ids s"
      using "1.prems" by (simp_all add: s1_def consistent_visited node_ids_visited)
    show ?thesis
    proof (cases "fileMap_get ap startPath")
      case None
      with False c1 n1 show ?thesis by (simp add: traverse.simps s1_def)
    next
      case (Some fl)
      define s2 where "s2 = addNode fl s1"
      have c2: "consistent s2" and n2: "node_ids s2 = insert (strip_md (path fl)) (node_ids s)"
        using c1 n1 by (simp_all add: s2_def consistent_addNode node_ids_addNode)
      define out where "out =
         (if direction = ''out'' \<or> direction = ''both''
          then case getOutlinks ap fl of Inl err \<Rightarrow> (Some err, s2)
               | Inr outlinks \<Rightarrow> traverse_out ap depth direction fl currentDepth outlinks s2
          else (None, s2))"
      have o: "consistent (snd out) \<and> node_ids s2 \<subseteq> node_ids (snd out)"
      proof (cases "direction = ''out'' \<or> direction = ''both''")
        case d: True
        show ?thesis
        proof (cases "getOutlinks ap fl")
          case (Inl err)
          with d c2 show ?thesis by (simp add: out_def)
        next
          case (Inr outlinks)
          have "consistent (snd (traverse_out ap depth direction fl currentDepth outlinks s2)) \<and>
                node_ids s2 \<subseteq> node_ids (snd (traverse_out ap depth direction fl currentDepth outlinks s2))"
            using "1.IH"(1) [OF _ _ s1_def Some s2_def d Inr c2] False n2 by simp
          with d Inr show ?thesis by (simp add: out_def)
        qed
      next
        case False
        with c2 show ?thesis by (simp add: out_def)
      qed
      have res: "traverse ap depth direction startPath currentDepth s =
        (case fst out of Some err \<Rightarrow> (Some err, snd out)
         | None \<Rightarrow> if direction = ''in'' \<or> direction = ''both''
                   then (None, traverse_in ap depth direction fl currentDepth (getMarkdownFiles ap) (snd out))
                   else (None, snd out))"
        unfolding out_def s2_def s1_def using False Some
        by (simp add: traverse.simps [of ap depth direction startPath currentDepth s] Let_def)
      show ?thesis
      proof (cases "fst out = None \<and> (direction = ''in'' \<or> direction = ''both'')")
        case True
        have "consistent (traverse_in ap depth direction fl currentDepth (getMarkdownFiles ap) (snd out)) \<and>
              node_ids (snd out) \<subseteq> node_ids (traverse_in ap depth direction fl currentDepth (getMarkdownFiles ap) (snd out))"
          using "1.IH"(2) [OF _ _ s1_def Some s2_def out_def] True False o n2 by auto
        with True o n2 show ?thesis by (auto simp: res)
      next
        case False
        with o n2 show ?thesis by (auto simp: res split: option.splits)
      qed
    qed
  qed
next
  case (2 ap depth direction fl currentDepth s)
  then show ?case by (simp add: traverse_out.simps)
next
  case (3 ap depth direction fl currentDepth tt rest s)
  define s1 where "s1 = pushEdge (out_edge fl tt) (addNode (fst tt) s)"
  define r where "r = traverse ap depth direction (path (fst tt)) (currentDepth + 1) s1"
  have c1: "consistent s1" and n1: "node_ids s \<subseteq> node_ids s1"
    using "3.prems" by (auto simp: s1_def consistent_out_step node_ids_pushEdge node_ids_addNode)
  have r: "consistent (snd r) \<and> node_ids s1 \<subseteq> node_ids (snd r)"
    using "3.IH"(1) [OF s1_def c1] by (simp add: r_def)
  show ?case
  proof (cases "fst r")
    case None
    have "consistent (snd (traverse_out ap depth direction fl currentDepth rest (snd r))) \<and>
          node_ids (snd r) \<subseteq> node_ids (snd (traverse_out ap depth direction fl currentDepth rest (snd r)))"
      using "3.IH"(2) [OF s1_def r_def None] r n1 "3.prems" by auto
    with None r n1 show ?thesis
      by (auto simp: traverse_out.simps Let_def s1_def [symmetric] r_def [symmetric])
  next
    case (Some err)
    with r n1 show ?thesis
      by (auto simp: traverse_out.simps Let_def s1_def [symmetric] r_def [symmetric])
  qed
next
  case (4 ap depth direction fl currentDepth s)
  then show ?case by (simp add: traverse_in.simps)
next
  case (5 ap depth direction fl currentDepth otherFile rest s)
  let ?skip = "traverse_in ap depth direction fl currentDepth rest s"
  show ?case
  proof (cases "path otherFile \<noteq> path fl \<and>
      (\<exists>b ls. getFileCache ap otherFile = Inr b \<and> (case b of None \<Rightarrow> None | Some c \<Rightarrow> links c) = Some ls
          \<and> links_to ap otherFile ls fl)")
    case True
    then obtain b ls where b: "path otherFile \<noteq> path fl" "getFileCache ap otherFile = Inr b"
      "(case b of None \<Rightarrow> None | Some c \<Rightarrow> links c) = Some ls" "links_to ap otherFile ls fl"
      by blast
    define s1 where "s1 = pushEdge (in_edge fl otherFile) (addNode otherFile s)"
    define r where "r = traverse ap depth direction (path otherFile) (currentDepth + 1) s1"
    have c1: "consistent s1" and n1: "node_ids s \<subseteq> node_ids s1"
      using "5.prems" by (auto simp: s1_def consistent_in_step node_ids_pushEdge node_ids_addNode)
    have r: "consistent (snd r) \<and> node_ids s1 \<subseteq> node_ids (snd r)"
      using "5.IH"(4) [OF b s1_def c1] by (simp add: r_def)
    have "consistent (traverse_in ap depth direction fl currentDepth rest (snd r)) \<and>
          node_ids (snd r) \<subseteq> node_ids (traverse_in ap depth direction fl currentDepth rest (snd r))"
      using "5.IH"(5) [OF b s1_def r_def] r n1 "5.prems" by auto
    with b r n1 show ?thesis
      by (auto simp: traverse_in.simps Let_def s1_def [symmetric] r_def [symmetric])
  next
    case False
    have eq: "traverse_in ap depth direction fl currentDepth (otherFile # rest) s = ?skip"
      using False by (auto simp: traverse_in.simps split: sum.splits option.splits)
    have "consistent ?skip \<and> node_ids s \<subseteq> node_ids ?skip"
    proof (cases "path otherFile = path fl")
      case True
      then show ?thesis using "5.IH"(1) "5.prems" by simp
    next
      case ne: False
      show ?thesis
      proof (cases "getFileCache ap otherFile")
        case (Inl a)
        then show ?thesis using "5.IH"(2) [OF ne] "5.prems" by simp
      next
        case (Inr b)
        show ?thesis
        proof (cases "case b of None \<Rightarrow> None | Some c \<Rightarrow> links c")
          case None
          then show ?thesis using "5.IH"(3) [OF ne Inr] "5.prems" by simp
        next
          case (Some ls)
          then have "\<not> links_to ap otherFile ls fl" using False ne Inr by auto
          then show ?thesis using "5.IH"(6) [OF ne Inr Some] "5.prems" by simp
        qed
      qed
    qed
    then show ?thesis by (simp add: eq)
  qed
qed

lemma snapshot_edges_fold: "snapshot_edges fl outs s = fold (out_step fl) outs s"
  by (induction outs arbitrary: s) (simp_all add: out_step_def)

lemma consistent_fold_out:
  "consistent s \<Longrightarrow> strip_md (path fl) \<in> node_ids s \<Longrightarrow>
   consistent (fold (out_step fl) outs s) \<and> node_ids s \<subseteq> node_ids (fold (out_step fl) outs s)"
proof (induction outs arbitrary: s)
  case Nil
  then show ?case by simp
next
  case (Cons tt outs)
  have "consistent (out_step fl tt s)" "node_ids s \<subseteq> node_ids (out_step fl tt s)"
    using Cons.prems by (auto simp: out_step_def consistent_out_step node_ids_pushEdge node_ids_addNode)
  with Cons.IH [of "out_step fl tt s"] Cons.prems show ?case by auto
qed

lemma consistent_snapshot: "consistent s \<Longrightarrow> consistent (snapshot ap fs s)"
proof (induction fs arbitrary: s)
  case Nil
  then show ?case by simp
next
  case (Cons fl fs)
  have a: "consistent (addNode fl s)" "strip_md (path fl) \<in> node_ids (addNode fl s)"
    using Cons.prems by (simp_all add: consistent_addNode node_ids_addNode)
  show ?case
    using Cons.IH a consistent_fold_out [OF a, of _]
    by (auto simp: Let_def snapshot_edges_fold split: sum.splits)
qed

lemma consistent_graphQuery_run: "consistent (snd (graphQuery_run ap b))"
  using traverse_invariant(1) [OF consistent_gstate0] consistent_snapshot [OF consistent_gstate0]
  by (simp add: graphQuery_run_def Let_def)

lemma endpoints_known_pushed:
  "endpoints_known seen h \<Longrightarrow> e \<in> set (pushed h) \<Longrightarrow>
   source e \<in> seen \<union> added h \<and> target e \<in> seen \<union> added h"
proof (induction seen h rule: endpoints_known.induct)
  case (2 seen i h)
  then show ?case by auto
qed auto

lemma endpoints_known_take: "endpoints_known seen h \<Longrightarrow> endpoints_known seen (take k h)"
  using endpoints_known_append [of seen "take k h" "drop k h"] by simp

lemma endpoints_known_nth:
  assumes "endpoints_known {} h" and "k < length h" and "h ! k = EdgePushed e"
  shows "source e \<in> added (take k h) \<and> target e \<in> added (take k h)"
proof -
  have "h = take k h @ EdgePushed e # drop (Suc k) h"
    using id_take_nth_drop [OF assms(2)] assms(3) by simp
  then have "endpoints_known {} (take k h @ EdgePushed e # drop (Suc k) h)"
    using assms(1) by simp
  then show ?thesis
    by (simp add: endpoints_known_append)
qed


lemma edges_addNode: "edges (addNode f s) = edges s"
  by (simp add: addNode_def Let_def)

lemma edges_out_step: "edges (out_step fl tt s) = edges s @ [out_edge fl tt]"
  by (simp add: out_step_def pushEdge_def edges_addNode)

lemma edges_in_step: "edges (in_step fl other s) = edges s @ [in_edge fl other]"
  by (simp add: in_step_def pushEdge_def edges_addNode)

lemma node_ids_out_step: "node_ids (out_step fl tt s) = insert (strip_md (path (fst tt))) (node_ids s)"
  by (simp add: out_step_def node_ids_pushEdge node_ids_addNode)

lemma node_ids_in_step: "node_ids (in_step fl other s) = insert (strip_md (path other)) (node_ids s)"
  by (simp add: in_step_def node_ids_pushEdge node_ids_addNode)

lemma edges_fold_out: "edges (fold (out_step fl) outs s) = edges s @ map (out_edge fl) outs"
  by (induction outs arbitrary: s) (simp_all add: edges_out_step)

lemma edges_fold_in: "edges (fold (in_step fl) ins s) = edges s @ map (in_edge fl) ins"
  by (induction ins arbitrary: s) (simp_all add: edges_in_step)

lemma node_ids_fold_out:
  "node_ids (fold (out_step fl) outs s) = node_ids s \<union> (\<lambda>tt. strip_md (path (fst tt))) ` set outs"
  by (induction outs arbitrary: s) (auto simp: node_ids_out_step)

lemma node_ids_fold_in:
  "node_ids (fold (in_step fl) ins s) = node_ids s \<union> (\<lambda>other. strip_md (path other)) ` set ins"
  by (induction ins arbitrary: s) (auto simp: node_ids_in_step)

lemma keyed_addNode: "keyed s \<Longrightarrow> keyed (addNode f s)"
  by (auto simp: keyed_def addNode_def Let_def node_of_def)

lemma keyed_pushEdge: "keyed (pushEdge e s) = keyed s"
  by (simp add: keyed_def pushEdge_def)

lemma keyed_fold_out: "keyed s \<Longrightarrow> keyed (fold (out_step fl) outs s)"
  by (induction outs arbitrary: s) (simp_all add: out_step_def keyed_pushEdge keyed_addNode)

lemma keyed_fold_in: "keyed s \<Longrightarrow> keyed (fold (in_step fl) ins s)"
  by (induction ins arbitrary: s) (simp_all add: in_step_def keyed_pushEdge keyed_addNode)

lemma nodes_addNode_ext: "\<exists>ext. nodes (addNode f s) = nodes s @ ext"
  by (simp add: addNode_def Let_def)

lemma nodes_fold_out_ext: "\<exists>ext. nodes (fold (out_step fl) outs s) = nodes s @ ext"
proof (induction outs arbitrary: s)
  case Nil
  then show ?case by simp
next
  case (Cons tt outs)
  obtain e1 where "nodes (out_step fl tt s) = nodes s @ e1"
    using nodes_addNode_ext [of "fst tt" s] by (auto simp: out_step_def pushEdge_def)
  moreover obtain e2 where "nodes (fold (out_step fl) outs (out_step fl tt s)) = nodes (out_step fl tt s) @ e2"
    using Cons.IH by blast
  ultimately show ?case by simp
qed

lemma nodes_fold_in_ext: "\<exists>ext. nodes (fold (in_step fl) ins s) = nodes s @ ext"
proof (induction ins arbitrary: s)
  case Nil
  then show ?case by simp
next
  case (Cons other ins)
  obtain e1 where "nodes (in_step fl other s) = nodes s @ e1"
    using nodes_addNode_ext [of other s] by (auto simp: in_step_def pushEdge_def)
  moreover obtain e2 where "nodes (fold (in_step fl) ins (in_step fl other s)) = nodes (in_step fl other s) @ e2"
    using Cons.IH by blast
  ultimately show ?case by simp
qed

lemma traverse_beyond: "depth < currentDepth \<Longrightarrow> traverse ap depth direction p currentDepth s = (None, s)"
  by (simp add: traverse.simps)

lemma traverse_out_exhausted:
  "depth \<le> currentDepth \<Longrightarrow>
   traverse_out ap depth direction fl currentDepth outs s = (None, fold (out_step fl) outs s)"
  by (induction outs arbitrary: s)
     (simp_all add: traverse_out.simps traverse_beyond Let_def out_step_def)

lemma traverse_in_exhausted:
  "depth \<le> currentDepth \<Longrightarrow>
   traverse_in ap depth direction fl currentDepth fs s = fold (in_step fl) (filter (links_into ap fl) fs) s"
  by (induction fs arbitrary: s)
     (auto simp: traverse_in.simps traverse_beyond Let_def in_step_def links_into_def
           split: sum.splits option.splits)

text \<open>The state in which a traversal of depth 0 ends.\<close>

lemma traverse_depth0:
  assumes "fileMap_get ap a = Some fl" and "getOutlinks ap fl = Inr outlinks"
  shows "traverse ap 0 direction a 0 gstate0 =
     (None, fold (in_step fl) (start_in ap direction fl)
              (fold (out_step fl) (start_out direction outlinks)
                 (addNode fl (gstate0\<lparr>visited := {a}\<rparr>))))"
  using assms
  by (subst traverse.simps)
     (simp add: gstate0_def Let_def traverse_out_exhausted traverse_in_exhausted
        start_in_def start_out_def incoming_def)

lemma keyed_node_ids: "keyed s \<Longrightarrow> map node_id (map snd (nodes s)) = map fst (nodes s)"
  by (simp add: keyed_def)








subsection \<open>C8: nodes before edges\<close>

text \<open>
  C8. For every graph query, with or without a start note, and at the point where the
  handler builds its result or throws: the history holds exactly the insertions into the
  node map and the pushes onto the edge array; after any number \<open>k\<close> of these
  mutations the ids inserted so far include both endpoints of every edge pushed so far;
  and each edge is pushed strictly after both of its endpoints were inserted.
\<close>

theorem edges_after_endpoints:
  "let s = snd (graphQuery_run ap b); h = history s
   in map fst (nodes s) = inserted h \<and> edges s = pushed h \<and>
      (\<forall>k\<le>length h. \<forall>e\<in>set (pushed (take k h)).
          source e \<in> set (inserted (take k h)) \<and> target e \<in> set (inserted (take k h))) \<and>
      (\<forall>k<length h. \<forall>e. h ! k = EdgePushed e \<longrightarrow>
          source e \<in> set (inserted (take k h)) \<and> target e \<in> set (inserted (take k h)))"
proof -
  define h where "h = history (snd (graphQuery_run ap b))"
  have c: "consistent (snd (graphQuery_run ap b))"
    by (rule consistent_graphQuery_run)
  then have ek: "endpoints_known {} h"
    by (simp add: consistent_def h_def)
  have p: "source e \<in> set (inserted (take k h)) \<and> target e \<in> set (inserted (take k h))"
    if "e \<in> set (pushed (take k h))" for k e
    using endpoints_known_pushed [OF endpoints_known_take [OF ek, of k] that]
    by (simp add: added_inserted)
  have q: "source e \<in> set (inserted (take k h)) \<and> target e \<in> set (inserted (take k h))"
    if "k < length h" "h ! k = EdgePushed e" for k e
    using endpoints_known_nth [OF ek that] by (simp add: added_inserted)
  show ?thesis
    using c p q unfolding Let_def h_def [symmetric] by (simp add: consistent_def h_def)
qed

theorem edges_after_endpoints_witness:
  "history (snd (graphQuery_run apAB q_cycle)) =
     [NodeAdded ''A'', NodeAdded ''B'', EdgePushed edgeAB, EdgePushed edgeBA, EdgePushed edgeAB] \<and>
   source edgeBA \<in> set (inserted (take 3 (history (snd (graphQuery_run apAB q_cycle))))) \<and>
   target edgeBA \<in> set (inserted (take 3 (history (snd (graphQuery_run apAB q_cycle))))) \<and>
   history (snd (graphQuery_run apAB q_all)) =
     [NodeAdded ''A'', NodeAdded ''B'', EdgePushed edgeAB, EdgePushed edgeBA] \<and>
   source edgeAB \<in> set (inserted (take 2 (history (snd (graphQuery_run apAB q_all))))) \<and>
   target edgeAB \<in> set (inserted (take 2 (history (snd (graphQuery_run apAB q_all)))))"
proof -
  have h1: "history (snd (graphQuery_run apAB q_cycle)) =
     [NodeAdded ''A'', NodeAdded ''B'', EdgePushed edgeAB, EdgePushed edgeBA, EdgePushed edgeAB]"
    by code_simp
  have h2: "history (snd (graphQuery_run apAB q_all)) =
     [NodeAdded ''A'', NodeAdded ''B'', EdgePushed edgeAB, EdgePushed edgeBA]"
    by code_simp
  have k1: "3 < length (history (snd (graphQuery_run apAB q_cycle)))"
    "history (snd (graphQuery_run apAB q_cycle)) ! 3 = EdgePushed edgeBA"
    by (simp_all add: h1)
  have k2: "2 < length (history (snd (graphQuery_run apAB q_all)))"
    "history (snd (graphQuery_run apAB q_all)) ! 2 = EdgePushed edgeAB"
    by (simp_all add: h2)
  have a: "\<forall>k<length (history (snd (graphQuery_run apAB q_cycle))). \<forall>e.
      history (snd (graphQuery_run apAB q_cycle)) ! k = EdgePushed e \<longrightarrow>
      source e \<in> set (inserted (take k (history (snd (graphQuery_run apAB q_cycle))))) \<and>
      target e \<in> set (inserted (take k (history (snd (graphQuery_run apAB q_cycle)))))"
    using edges_after_endpoints [of apAB q_cycle] by (simp add: Let_def)
  have b: "\<forall>k<length (history (snd (graphQuery_run apAB q_all))). \<forall>e.
      history (snd (graphQuery_run apAB q_all)) ! k = EdgePushed e \<longrightarrow>
      source e \<in> set (inserted (take k (history (snd (graphQuery_run apAB q_all))))) \<and>
      target e \<in> set (inserted (take k (history (snd (graphQuery_run apAB q_all)))))"
    using edges_after_endpoints [of apAB q_all] by (simp add: Let_def)
  show ?thesis
    using a [rule_format, OF k1] b [rule_format, OF k2] h1 h2 by simp
qed

subsection \<open>C1: depth 0\<close>

text \<open>
  C1 as stated fails: in the two-note vault, the query from A with depth 0 and direction
  "out" returns the nodes A and B and the edge from A to B, not the single node A.
\<close>

theorem depth0_only_start_counterexample:
  "graphQuery apAB (Some q_depth0) = Inr \<lparr>result_nodes = [nodeA, nodeB], result_edges = [edgeAB]\<rparr> \<and>
   graphQuery apAB (Some q_depth0) \<noteq> Inr \<lparr>result_nodes = [nodeA], result_edges = []\<rparr>"
  by code_simp

text \<open>
  C1, amended. For a start note (a non-empty \<open>from\<close> that the file lookup resolves)
  whose cached metadata can be read, a query with depth 0 returns the start note first,
  then the notes directly linked with it in the requested direction (the targets of its
  resolved links for "out", the notes with a link resolving to it for "in", both for
  "both"), each id once, with one edge per resolved outgoing link followed by one edge
  per linking note, and nothing else. The result is the start node alone with no edges
  exactly when the start note has no such links.
\<close>

theorem depth0_start_and_neighbours:
  assumes given: "q_from b = Some a" "a \<noteq> []"
    and depth: "q_depth b = Some 0"
    and start: "fileMap_get ap a = Some fl"
    and outl: "getOutlinks ap fl = Inr outlinks"
  shows "\<exists>r. graphQuery ap (Some b) = Inr r \<and>
           result_edges r =
             map (out_edge fl) (start_out (direction_of b) outlinks) @
             map (in_edge fl) (start_in ap (direction_of b) fl) \<and>
           hd (result_nodes r) = node_of fl \<and>
           distinct (map node_id (result_nodes r)) \<and>
           set (map node_id (result_nodes r)) =
             {strip_md (path fl)} \<union>
             (\<lambda>tt. strip_md (path (fst tt))) ` set (start_out (direction_of b) outlinks) \<union>
             (\<lambda>other. strip_md (path other)) ` set (start_in ap (direction_of b) fl) \<and>
           (r = \<lparr>result_nodes = [node_of fl], result_edges = []\<rparr> \<longleftrightarrow>
              start_out (direction_of b) outlinks = [] \<and> start_in ap (direction_of b) fl = [])"
proof -
  define s1 where "s1 = addNode fl (gstate0\<lparr>visited := {a}\<rparr>)"
  define s2 where "s2 = fold (out_step fl) (start_out (direction_of b) outlinks) s1"
  define s3 where "s3 = fold (in_step fl) (start_in ap (direction_of b) fl) s2"
  have n1: "nodes s1 = [(strip_md (path fl), node_of fl)]" and e1: "edges s1 = []"
    by (simp_all add: s1_def addNode_def gstate0_def Let_def)
  have k1: "keyed s1"
    by (simp add: keyed_def n1 node_of_def)
  have k3: "keyed s3"
    unfolding s3_def s2_def by (intro keyed_fold_in keyed_fold_out k1)
  have run: "graphQuery ap (Some b) = Inr (graph_result_of s3)"
    using given depth traverse_depth0 [OF start outl, of "direction_of b"]
    by (simp add: graphQuery_def graphQuery_run_def depth_of_def Let_def s1_def s2_def s3_def)
  have es: "edges s3 = map (out_edge fl) (start_out (direction_of b) outlinks) @
      map (in_edge fl) (start_in ap (direction_of b) fl)"
    by (simp add: s3_def s2_def edges_fold_in edges_fold_out e1)
  obtain ext where ext: "nodes s3 = nodes s1 @ ext"
    using nodes_fold_out_ext [of fl "start_out (direction_of b) outlinks" s1]
      nodes_fold_in_ext [of fl "start_in ap (direction_of b) fl" s2]
    by (auto simp: s3_def s2_def)
  define r where "r = graph_result_of s3"
  have rn: "result_nodes r = map snd (nodes s3)" and re: "result_edges r = edges s3"
    by (simp_all add: r_def graph_result_of_def)
  have A: "graphQuery ap (Some b) = Inr r"
    by (simp add: run r_def)
  have B: "result_edges r =
      map (out_edge fl) (start_out (direction_of b) outlinks) @
      map (in_edge fl) (start_in ap (direction_of b) fl)"
    by (simp add: re es)
  have C: "hd (result_nodes r) = node_of fl"
    by (simp add: rn ext n1)
  have ids: "map node_id (result_nodes r) = map fst (nodes s3)"
    unfolding rn using k3 by (rule keyed_node_ids)
  have D: "distinct (map node_id (result_nodes r))"
    unfolding ids using k3 unfolding keyed_def by blast
  have E: "set (map node_id (result_nodes r)) =
      {strip_md (path fl)} \<union>
      (\<lambda>tt. strip_md (path (fst tt))) ` set (start_out (direction_of b) outlinks) \<union>
      (\<lambda>other. strip_md (path other)) ` set (start_in ap (direction_of b) fl)"
    unfolding ids
    using node_ids_fold_in [of fl "start_in ap (direction_of b) fl" s2]
      node_ids_fold_out [of fl "start_out (direction_of b) outlinks" s1] n1
    by (simp add: node_ids_def s3_def s2_def)
  have F: "r = \<lparr>result_nodes = [node_of fl], result_edges = []\<rparr> \<longleftrightarrow>
      start_out (direction_of b) outlinks = [] \<and> start_in ap (direction_of b) fl = []"
  proof
    assume "r = \<lparr>result_nodes = [node_of fl], result_edges = []\<rparr>"
    then have "result_edges r = []" by simp
    then show "start_out (direction_of b) outlinks = [] \<and> start_in ap (direction_of b) fl = []"
      by (simp add: B)
  next
    assume "start_out (direction_of b) outlinks = [] \<and> start_in ap (direction_of b) fl = []"
    then have "s3 = s1" by (simp add: s3_def s2_def)
    then show "r = \<lparr>result_nodes = [node_of fl], result_edges = []\<rparr>"
      by (simp add: r_def graph_result_of_def n1 e1)
  qed
  show ?thesis
    using A B C D E F by blast
qed

theorem depth0_start_and_neighbours_witness:
  "q_from q_depth0 = Some ''A'' \<and> q_depth q_depth0 = Some 0 \<and>
   fileMap_get apAB ''A'' = Some fA \<and> getOutlinks apAB fA = Inr [(fB, ''wiki'')] \<and>
   (\<exists>r. graphQuery apAB (Some q_depth0) = Inr r \<and> result_edges r = [edgeAB] \<and>
        hd (result_nodes r) = nodeA \<and> set (map node_id (result_nodes r)) = {''A'', ''B''}) \<and>
   fileMap_get apLone ''A'' = Some fA \<and> getOutlinks apLone fA = Inr [] \<and>
   graphQuery apLone (Some q_depth0) = Inr \<lparr>result_nodes = [nodeA], result_edges = []\<rparr>"
proof -
  have q: "q_from q_depth0 = Some ''A''" "''A'' \<noteq> []" "q_depth q_depth0 = Some 0"
    by (simp_all add: q_depth0_def)
  have d: "direction_of q_depth0 = ''out''"
    by (simp add: direction_of_def q_depth0_def)
  have f1: "fileMap_get apAB ''A'' = Some fA" and o1: "getOutlinks apAB fA = Inr [(fB, ''wiki'')]"
    by code_simp+
  have f2: "fileMap_get apLone ''A'' = Some fA" and o2: "getOutlinks apLone fA = Inr []"
    by code_simp+
  have v: "out_edge fA (fB, ''wiki'') = edgeAB" "node_of fA = nodeA"
    "strip_md (path fA) = ''A''" "strip_md (path fB) = ''B''"
    by code_simp+
  have s1: "start_out ''out'' [(fB, ''wiki'')] = [(fB, ''wiki'')]" "start_in apAB ''out'' fA = []"
    "start_out ''out'' ([] :: (tfile \<times> string) list) = []" "start_in apLone ''out'' fA = []"
    by (simp_all add: start_out_def start_in_def)
  show ?thesis
    using depth0_start_and_neighbours [OF q(1) q(2) q(3) f1 o1]
      depth0_start_and_neighbours [OF q(1) q(2) q(3) f2 o2]
      q f1 o1 f2 o2
    by (auto simp: d v s1)
qed

subsection \<open>C2: the two-note cycle\<close>

text \<open>
  C2. \<open>traverse\<close> is a total function: its recursion is bounded by the depth, so it
  returns on every link graph. In the two-note cycle with the start note given by its
  id \<open>A\<close>, as the node ids of the response name it, the visited set holds \<open>A\<close> while
  the recursion comes back with the file path \<open>A.md\<close>: the start note is expanded a
  second time and its edge to B is pushed twice.
\<close>

theorem traverse_cycle_start_expanded_twice:
  "graphQuery apAB (Some q_cycle) =
     Inr \<lparr>result_nodes = [nodeA, nodeB], result_edges = [edgeAB, edgeBA, edgeAB]\<rparr>"
  by code_simp

lemma traverse_cycle_from_path:
  "graphQuery apAB (Some q_cycle_md) =
     Inr \<lparr>result_nodes = [nodeA, nodeB], result_edges = [edgeAB, edgeBA]\<rparr>"
  by code_simp

subsection \<open>C10: defaults of the graph query\<close>



section \<open>Properties of the link routes\<close>

lemma outlinks_links_origin:
  "e \<in> set (snd (outlinks_links ap sp content ls st)) \<Longrightarrow> li_exists e \<Longrightarrow>
   e \<in> set (snd st) \<or>
   (\<exists>l r. l \<in> set ls \<and> getFirstLinkpathDest ap (link l) sp = Some r \<and> li_path e = strip_md (path r))"
proof (induction ls arbitrary: st)
  case Nil
  then show ?case by simp
next
  case (Cons l ls)
  show ?case
  proof (cases "link l \<in> fst st")
    case True
    with Cons.prems Cons.IH [of st] show ?thesis by auto
  next
    case False
    let ?entry = "\<lparr>li_path = (case getFirstLinkpathDest ap (link l) sp of Some r \<Rightarrow> strip_md (path r) | None \<Rightarrow> link l),
                      li_title = (case getFirstLinkpathDest ap (link l) sp of Some r \<Rightarrow> basename r | None \<Rightarrow> link l),
                      li_exists = (getFirstLinkpathDest ap (link l) sp \<noteq> None),
                      li_context = getContext content (original l)\<rparr>"
    from Cons.prems False
    have "e \<in> set (snd (outlinks_links ap sp content ls (insert (link l) (fst st), snd st @ [?entry])))"
      by (simp add: Let_def)
    from Cons.IH [OF this Cons.prems(2)]
    consider "e \<in> set (snd st)" | "e = ?entry"
      | "\<exists>l' r. l' \<in> set ls \<and> getFirstLinkpathDest ap (link l') sp = Some r \<and> li_path e = strip_md (path r)"
      by auto
    then show ?thesis
    proof cases
      case 1
      then show ?thesis by simp
    next
      case 2
      with Cons.prems(2) show ?thesis by (cases "getFirstLinkpathDest ap (link l) sp") auto
    next
      case 3
      then show ?thesis by auto
    qed
  qed
qed

lemma outlinks_embeds_origin:
  "e \<in> set (snd (outlinks_embeds ap sp content ls st)) \<Longrightarrow>
   e \<in> set (snd st) \<or>
   (\<exists>l r. l \<in> set ls \<and> getFirstLinkpathDest ap (link l) sp = Some r \<and> li_path e = strip_md (path r))"
proof (induction ls arbitrary: st)
  case Nil
  then show ?case by simp
next
  case (Cons l ls)
  show ?case
  proof (cases "link l \<in> fst st")
    case True
    with Cons.prems Cons.IH [of st] show ?thesis by auto
  next
    case False
    show ?thesis
    proof (cases "getFirstLinkpathDest ap (link l) sp")
      case None
      with Cons.prems False Cons.IH [of "(insert (link l) (fst st), snd st)"] show ?thesis by auto
    next
      case (Some r)
      show ?thesis
      proof (cases "extension r = ''md''")
        case True
        with Cons.prems False Some
          Cons.IH [of "(insert (link l) (fst st),
                        snd st @ [\<lparr>li_path = strip_md (path r), li_title = basename r, li_exists = True,
                                    li_context = getContext content (original l)\<rparr>])"]
        show ?thesis by auto
      next
        case ne: False
        with Cons.prems False Some Cons.IH [of "(insert (link l) (fst st), snd st)"] show ?thesis by auto
      qed
    qed
  qed
qed

lemma backlinks_scan_acc: "set acc \<subseteq> set (backlinks_scan rt ap tp tb fs acc)"
proof (induction fs arbitrary: acc)
  case Nil
  then show ?case by simp
next
  case (Cons f fs)
  show ?case
    using Cons.IH [of acc] Cons.IH [of "acc @ [x]" for x]
    by (auto split: sum.splits option.splits)
qed

lemma backlinks_scan_includes:
  "f \<in> set fs \<Longrightarrow> path f \<noteq> tp \<Longrightarrow> backlink_of rt ap tp tb f = Inr (Some entry) \<Longrightarrow>
   entry \<in> set (backlinks_scan rt ap tp tb fs acc)"
proof (induction fs arbitrary: acc)
  case Nil
  then show ?case by simp
next
  case (Cons g fs)
  show ?case
  proof (cases "g = f")
    case True
    with Cons.prems backlinks_scan_acc [of "acc @ [entry]" rt ap tp tb fs] show ?thesis by auto
  next
    case False
    with Cons.prems have "f \<in> set fs" by simp
    from Cons.IH [OF this Cons.prems(2,3)] show ?thesis
      by (auto split: sum.splits option.splits)
  qed
qed

lemma has_link_iff:
  "has_link ap f ls tp \<longleftrightarrow>
   (\<exists>l r. l \<in> set ls \<and> getFirstLinkpathDest ap (link l) (path f) = Some r \<and> path r = tp)"
  by (auto simp: has_link_def list_ex_iff split: option.splits)

lemma ni_path_with_context: "ni_path (with_context info c) = ni_path info"
  by (simp add: with_context_def)

lemma fileToNoteInfo_cached:
  "\<exists>info. fileToNoteInfo ap f (Some c) = Inr info \<and> ni_path info = strip_md (path f)"
  by (simp add: fileToNoteInfo_def Let_def)

subsection \<open>C3: backlinks and outlinks\<close>

text \<open>
  C3 as stated fails for a self-link: for a note A that links to itself the outlink
  query on A reports the resolved reference to A, and the backlink query on A, which
  skips the file whose path is the target's, returns nothing.
\<close>

theorem self_link_counterexample:
  "outlinks_route apSelf ''A'' =
     Inr (Data [\<lparr>li_path = ''A'', li_title = ''A'', li_exists = True, li_context = ''me: [[A]]''\<rparr>]) \<and>
   backlinks_route rt0 apSelf ''A'' = Data []"
  by code_simp

text \<open>
  C3, amended. Let X and Y be two different notes of the vault, addressed by \<open>px\<close> and
  \<open>py\<close>. If the outlink query on X answers with an entry that exists and carries the id
  of Y, no other file that a link of X resolves to shares that id, and the context
  snippet of X for Y can be built (the text of X can be read and the link pattern built
  from the basename of Y compiles), then the backlink query on Y answers with a list
  that contains X.
\<close>

theorem backlink_symmetry:
  assumes src: "getAbstractFileByPath ap (normalizePath px) = Some (TFile X)"
    and pX: "path X = normalizePath px"
    and inV: "X \<in> set (getMarkdownFiles ap)"
    and tgt: "getAbstractFileByPath ap (normalizePath py) = Some (TFile Y)"
    and pY: "path Y = normalizePath py"
    and out: "outlinks_route ap px = Inr (Data ols)"
    and rep: "e \<in> set ols" "li_exists e" "li_path e = strip_md (path Y)"
    and unamb: "\<forall>l r. getFirstLinkpathDest ap l (path X) = Some r \<and> strip_md (path r) = strip_md (path Y)
                  \<longrightarrow> path r = path Y"
    and ne: "path X \<noteq> path Y"
    and ctx: "context_ok rt ap X Y"
  shows "\<exists>bl. backlinks_route rt ap py = Data bl \<and> strip_md (path X) \<in> ni_path ` set bl"
proof -
  obtain cache content where c: "getFileCache ap X = Inr cache" and rd: "read ap X = Inr content"
    using out src by (auto simp: outlinks_route_def Let_def split: sum.splits)
  let ?ls = "case (case cache of None \<Rightarrow> None | Some c \<Rightarrow> links c) of None \<Rightarrow> [] | Some ls \<Rightarrow> ls"
  let ?es = "case (case cache of None \<Rightarrow> None | Some c \<Rightarrow> embeds c) of None \<Rightarrow> [] | Some es \<Rightarrow> es"
  define st1 where "st1 = (case (case cache of None \<Rightarrow> None | Some c \<Rightarrow> links c) of
       None \<Rightarrow> ({}, []) | Some ls \<Rightarrow> outlinks_links ap (path X) content ls ({}, []))"
  define st2 where "st2 = (case (case cache of None \<Rightarrow> None | Some c \<Rightarrow> embeds c) of
       None \<Rightarrow> st1 | Some es \<Rightarrow> outlinks_embeds ap (path X) content es st1)"
  have ols: "ols = snd st2"
    unfolding st2_def st1_def pX using out src c rd by (simp add: outlinks_route_def Let_def)
  have in1: "\<exists>l r. l \<in> set ?ls \<and> getFirstLinkpathDest ap (link l) (path X) = Some r \<and>
      li_path e = strip_md (path r)" if "e \<in> set (snd st1)"
    using that rep(2) outlinks_links_origin [of e ap "path X" content _ "({}, [])"]
    by (auto simp: st1_def split: option.splits)
  have "e \<in> set (snd st1) \<or>
      (\<exists>l r. l \<in> set ?es \<and> getFirstLinkpathDest ap (link l) (path X) = Some r \<and> li_path e = strip_md (path r))"
    using rep(1) outlinks_embeds_origin [of e ap "path X" content _ st1]
    by (auto simp: ols st2_def split: option.splits)
  with in1 obtain l r where l: "l \<in> set (?ls @ ?es)"
    and r: "getFirstLinkpathDest ap (link l) (path X) = Some r" "li_path e = strip_md (path r)"
    by auto
  have pr: "path r = path Y"
    using unamb r rep(3) by auto
  from l obtain cm where cm: "cache = Some cm"
    by (cases cache) auto
  have l': "l \<in> set ((case links cm of None \<Rightarrow> [] | Some ls \<Rightarrow> ls) @
      (case embeds cm of None \<Rightarrow> [] | Some es \<Rightarrow> es))"
    using l by (simp add: cm)
  then have some: "\<not> (links cm = None \<and> embeds cm = None)"
    by auto
  have hl: "has_link ap X ((case links cm of None \<Rightarrow> [] | Some ls \<Rightarrow> ls) @
      (case embeds cm of None \<Rightarrow> [] | Some es \<Rightarrow> es)) (path Y)"
    unfolding has_link_iff using l' r(1) pr by blast
  obtain m where m: "match_link rt (basename Y) content = Inr m"
    using ctx rd by (auto simp: context_ok_def split: sum.splits)
  obtain info where info: "fileToNoteInfo ap X (Some cm) = Inr info" "ni_path info = strip_md (path X)"
    using fileToNoteInfo_cached by blast
  define entry where "entry = with_context info (case m of None \<Rightarrow> [] | Some t \<Rightarrow> getContext content t)"
  have bo: "backlink_of rt ap (path Y) (basename Y) X = Inr (Some entry)"
    using c cm some hl rd m info(1) by (auto simp: backlink_of_def Let_def entry_def)
  have "entry \<in> set (backlinks_scan rt ap (path Y) (basename Y) (getMarkdownFiles ap) [])"
    using backlinks_scan_includes [OF inV ne bo] .
  moreover have "ni_path entry = strip_md (path X)"
    by (simp add: entry_def ni_path_with_context info(2))
  moreover have "backlinks_route rt ap py =
      Data (backlinks_scan rt ap (path Y) (basename Y) (getMarkdownFiles ap) [])"
    using tgt by (simp add: backlinks_route_def Let_def pY)
  ultimately show ?thesis
    by (metis image_eqI)
qed

theorem backlink_symmetry_witness:
  "getAbstractFileByPath apAB (normalizePath ''A'') = Some (TFile fA) \<and>
   getAbstractFileByPath apAB (normalizePath ''B'') = Some (TFile fB) \<and>
   fA \<in> set (getMarkdownFiles apAB) \<and>
   outlinks_route apAB ''A'' =
     Inr (Data [\<lparr>li_path = ''B'', li_title = ''B'', li_exists = True, li_context = ''see [[B]]''\<rparr>]) \<and>
   path fA \<noteq> path fB \<and> context_ok rt0 apAB fA fB \<and>
   (\<exists>bl. backlinks_route rt0 apAB ''B'' = Data bl \<and> strip_md (path fA) \<in> ni_path ` set bl)"
proof -
  let ?e = "\<lparr>li_path = ''B'', li_title = ''B'', li_exists = True, li_context = ''see [[B]]''\<rparr>"
  have src: "getAbstractFileByPath apAB (normalizePath ''A'') = Some (TFile fA)"
    and pX: "path fA = normalizePath ''A''"
    and tgt: "getAbstractFileByPath apAB (normalizePath ''B'') = Some (TFile fB)"
    and pY: "path fB = normalizePath ''B''"
    and out: "outlinks_route apAB ''A'' = Inr (Data [?e])"
    and ne: "path fA \<noteq> path fB"
    and ctx: "context_ok rt0 apAB fA fB"
    by code_simp+
  have inV: "fA \<in> set (getMarkdownFiles apAB)"
    by (simp add: apAB_def)
  have rep: "?e \<in> set [?e]" "li_exists ?e" "li_path ?e = strip_md (path fB)"
    by (simp_all add: strip_md_def fB_def)
  have unamb: "\<forall>l r. getFirstLinkpathDest apAB l (path fA) = Some r \<and> strip_md (path r) = strip_md (path fB)
      \<longrightarrow> path r = path fB"
    by (auto simp: apAB_def fA_def fB_def strip_md_def split: if_splits)
  show ?thesis
    using backlink_symmetry [OF src pX inV tgt pY out rep unamb ne ctx] src tgt inV out ne ctx
    by simp
qed

section \<open>Properties of the bulk scans\<close>

declare processBatch_from.simps [code]

lemma processBatch_from_total:
  "0 < batchSize \<Longrightarrow> \<exists>out. processBatch_from items p batchSize i acc = Some out"
proof (induction "length items - i" arbitrary: i acc rule: less_induct)
  case less
  show ?case
  proof (cases "i < length items")
    case True
    then have "length items - (i + batchSize) < length items - i"
      using less.prems by simp
    from less.hyps [OF this less.prems] True show ?thesis
      by (subst processBatch_from.simps) simp
  next
    case False
    then show ?thesis
      by (subst processBatch_from.simps) simp
  qed
qed

lemma map_filter_append: "List.map_filter g (xs @ ys) = List.map_filter g xs @ List.map_filter g ys"
  by (simp add: List.map_filter_def)

lemma push_results_map_filter: "push_results (map g xs) results = results @ List.map_filter g xs"
proof (induction xs arbitrary: results)
  case Nil
  then show ?case by (simp add: List.map_filter_def)
next
  case (Cons x xs)
  then show ?case by (cases "g x") (simp_all add: List.map_filter_def)
qed

lemma run_batch_stateless:
  "run_batch (stateless f) s0 batch s = (map (\<lambda>item. caught (f item)) batch, s)"
  by (induction batch) (simp_all add: stateless_def Let_def)

lemma processBatch_from_stateless:
  "0 < batchSize \<Longrightarrow>
   processBatch_from items (stateless f) batchSize i (res, s) =
     Some (res @ List.map_filter (\<lambda>item. caught (f item)) (drop i items), s)"
proof (induction "length items - i" arbitrary: i res rule: less_induct)
  case less
  show ?case
  proof (cases "i < length items")
    case True
    then have m: "length items - (i + batchSize) < length items - i"
      using less.prems by simp
    have d: "take batchSize (drop i items) @ drop (i + batchSize) items = drop i items"
      by (metis append_take_drop_id drop_drop add.commute)
    let ?g = "\<lambda>item. caught (f item)"
    have "processBatch_from items (stateless f) batchSize i (res, s) =
        processBatch_from items (stateless f) batchSize (i + batchSize)
          (res @ List.map_filter ?g (take batchSize (drop i items)), s)"
      by (subst processBatch_from.simps) (simp add: True run_batch_stateless push_results_map_filter)
    also have "\<dots> = Some ((res @ List.map_filter ?g (take batchSize (drop i items))) @
        List.map_filter ?g (drop (i + batchSize) items), s)"
      by (rule less.hyps [OF m less.prems])
    also have "\<dots> = Some (res @ List.map_filter ?g (drop i items), s)"
      by (simp add: map_filter_append [symmetric] d)
    finally show ?thesis .
  next
    case False
    then show ?thesis
      by (subst processBatch_from.simps) (simp add: List.map_filter_def)
  qed
qed

lemma map_filter_filter_caught:
  "List.map_filter (\<lambda>item. caught (f item)) (filter (\<lambda>item. case f item of Inl e \<Rightarrow> False | Inr r \<Rightarrow> True) items)
   = List.map_filter (\<lambda>item. caught (f item)) items"
proof (induction items)
  case Nil
  then show ?case by simp
next
  case (Cons a items)
  then show ?case by (cases "f a") (simp_all add: List.map_filter_def)
qed

text \<open>The push of the search processor, as a step on \<open>results\<close>.\<close>

lemma int_length_less: "int (length (xs :: 'a list)) < limit \<longleftrightarrow> length xs < nat limit"
  by auto

lemma search_resume:
  "resume (search_processor rt ap limit cs q) f results =
     (Inr None,
      case search_hit rt ap cs q f of
        Some r \<Rightarrow> if length results < nat limit then results @ [r] else results
      | None \<Rightarrow> results)"
  by (auto simp: search_processor_def search_hit_def Let_def int_length_less split: sum.splits)

lemma search_enter:
  "enter (search_processor rt ap limit cs q) f s0 =
     (if length s0 < nat limit then None else Some (Inr None))"
  by (auto simp: search_processor_def int_length_less [symmetric])

lemma search_run_batch_full:
  "\<not> length s0 < nat limit \<Longrightarrow>
   snd (run_batch (search_processor rt ap limit cs q) s0 batch s) = s"
  by (induction batch) (simp_all add: search_enter Let_def)

lemma search_run_batch_room:
  "length s0 < nat limit \<Longrightarrow> length s \<le> nat limit \<Longrightarrow>
   snd (run_batch (search_processor rt ap limit cs q) s0 batch s) =
     take (nat limit) (s @ List.map_filter (search_hit rt ap cs q) batch)"
proof (induction batch arbitrary: s)
  case Nil
  then show ?case by (simp add: List.map_filter_def)
next
  case (Cons f batch)
  show ?case
  proof (cases "search_hit rt ap cs q f")
    case None
    with Cons show ?thesis
      by (simp add: search_enter search_resume Let_def List.map_filter_def)
  next
    case (Some r)
    show ?thesis
    proof (cases "length s < nat limit")
      case True
      with Cons.prems Cons.IH [of "s @ [r]"] Some show ?thesis
        by (simp add: search_enter search_resume Let_def List.map_filter_def)
    next
      case False
      with Cons.prems have full: "length s = nat limit" by simp
      with Cons.prems Cons.IH [of s] Some show ?thesis
        by (simp add: search_enter search_resume Let_def List.map_filter_def)
    qed
  qed
qed

lemma search_run_batch:
  "length s \<le> nat limit \<Longrightarrow>
   snd (run_batch (search_processor rt ap limit cs q) s batch s) =
     take (nat limit) (s @ List.map_filter (search_hit rt ap cs q) batch)"
  using search_run_batch_full [of s limit rt ap cs q batch s]
    search_run_batch_room [of s limit s rt ap cs q batch]
  by (cases "length s < nat limit") auto

lemma take_take_append: "take n (take n xs @ ys) = take n (xs @ ys)"
  by (cases "length xs \<le> n") (simp_all add: min_def)

lemma search_processBatch_from:
  "0 < batchSize \<Longrightarrow> length s \<le> nat limit \<Longrightarrow>
   \<exists>res. processBatch_from items (search_processor rt ap limit cs q) batchSize i (res0, s) =
     Some (res, take (nat limit) (s @ List.map_filter (search_hit rt ap cs q) (drop i items)))"
proof (induction "length items - i" arbitrary: i res0 s rule: less_induct)
  case less
  let ?P = "search_processor rt ap limit cs q" and ?h = "search_hit rt ap cs q"
  show ?case
  proof (cases "i < length items")
    case True
    then have m: "length items - (i + batchSize) < length items - i"
      using less.prems by simp
    have d: "take batchSize (drop i items) @ drop (i + batchSize) items = drop i items"
      by (metis append_take_drop_id drop_drop add.commute)
    let ?batch = "take batchSize (drop i items)"
    let ?s' = "take (nat limit) (s @ List.map_filter ?h ?batch)"
    let ?res' = "push_results (fst (run_batch ?P s ?batch s)) res0"
    have step: "processBatch_from items ?P batchSize i (res0, s) =
        processBatch_from items ?P batchSize (i + batchSize) (?res', ?s')"
      by (subst processBatch_from.simps) (simp add: True search_run_batch [OF less.prems(2)])
    have "length ?s' \<le> nat limit" by simp
    from less.hyps [OF m less.prems(1) this, of ?res']
    obtain res where "processBatch_from items ?P batchSize (i + batchSize) (?res', ?s') =
        Some (res, take (nat limit) (?s' @ List.map_filter ?h (drop (i + batchSize) items)))"
      by blast
    moreover have "take (nat limit) (?s' @ List.map_filter ?h (drop (i + batchSize) items)) =
        take (nat limit) (s @ List.map_filter ?h (drop i items))"
      by (simp only: take_take_append append_assoc map_filter_append [symmetric] d)
    ultimately show ?thesis
      using step by simp
  next
    case False
    with less.prems show ?thesis
      by (subst processBatch_from.simps) (simp add: List.map_filter_def)
  qed
qed

lemma search_route_closed:
  "\<not> falsy (s_query b) \<Longrightarrow>
   search_route rt ap (Some b) =
     Some (Inr (Data (slice0
       (sort_key (\<lambda>r. - int (length (sr_matches r)))
          (take (nat (search_limit b))
             (List.map_filter (search_hit rt ap (search_caseSensitive b) (search_query rt b))
                (search_files ap b))))
       (search_limit b))))"
  using search_processBatch_from [of 50 "[]" "search_limit b" "search_files ap b" rt ap
      "search_caseSensitive b" "search_query rt b" 0 "[]"]
  by (auto simp: search_route_def processBatch_def)

lemma search_hit_unreadable: "\<not> readable ap f \<Longrightarrow> search_hit rt ap cs q f = None"
  by (auto simp: readable_def search_hit_def split: sum.splits)

lemma map_filter_skip:
  "(\<And>x. \<not> P x \<Longrightarrow> g x = None) \<Longrightarrow> List.map_filter g (filter P xs) = List.map_filter g xs"
proof (induction xs)
  case Nil
  then show ?case by simp
next
  case (Cons a xs)
  then show ?case by (cases "P a") (simp_all add: List.map_filter_def)
qed

lemma fileToNoteInfo_app:
  "getFileCache ap' = getFileCache ap \<Longrightarrow> fileToNoteInfo ap' f c = fileToNoteInfo ap f c"
  by (cases c) (simp_all add: fileToNoteInfo_def)

lemma search_hit_app:
  "read ap' = read ap \<Longrightarrow> getFileCache ap' = getFileCache ap \<Longrightarrow>
   search_hit rt ap' cs q f = search_hit rt ap cs q f"
  by (auto simp: search_hit_def fileToNoteInfo_app [of ap' ap] Let_def split: sum.splits)

lemma search_hit_without_unreadable:
  "search_hit rt (without_unreadable ap) cs q f = search_hit rt ap cs q f"
  by (rule search_hit_app) (simp_all add: without_unreadable_def)

lemma search_files_without_unreadable:
  "search_files (without_unreadable ap) b = filter (readable ap) (search_files ap b)"
  by (auto simp: search_files_def without_unreadable_def intro: filter_cong)

lemma search_route_isolated:
  "search_route rt (without_unreadable ap) (Some b) = search_route rt ap (Some b)"
proof (cases "falsy (s_query b)")
  case True
  then show ?thesis by (simp add: search_route_def)
next
  case False
  have "List.map_filter (search_hit rt ap (search_caseSensitive b) (search_query rt b))
          (filter (readable ap) (search_files ap b)) =
        List.map_filter (search_hit rt ap (search_caseSensitive b) (search_query rt b)) (search_files ap b)"
    by (rule map_filter_skip) (rule search_hit_unreadable)
  then show ?thesis
    using False
    by (simp add: search_route_closed search_files_without_unreadable
          search_hit_without_unreadable [abs_def])
qed

lemma search_route_answers: "\<exists>r. search_route rt ap (Some b) = Some (Inr r)"
  by (cases "falsy (s_query b)") (simp_all add: search_route_closed, simp add: search_route_def)

text \<open>The tag listing skips a note whose metadata lookup throws.\<close>

lemma count_tags_isolated:
  "count_tags rt ap (filter (cache_ok ap) fs) m = count_tags rt ap fs m"
  by (induction fs arbitrary: m) (auto simp: cache_ok_def split: sum.splits)

lemma count_tags_app:
  "getFileCache ap' = getFileCache ap \<Longrightarrow> count_tags rt ap' fs m = count_tags rt ap fs m"
  by (induction fs arbitrary: m) (auto split: sum.splits)

lemma tags_route_isolated: "tags_route rt (without_uncached ap) = tags_route rt ap"
  using count_tags_app [of "without_uncached ap" ap rt]
  by (simp add: tags_route_def without_uncached_def count_tags_isolated)

text \<open>The backlink scan skips a note that cannot be read.\<close>

lemma backlink_of_unreadable:
  assumes "\<not> readable ap f"
  shows "(\<exists>err. backlink_of rt ap tp tb f = Inl err) \<or> backlink_of rt ap tp tb f = Inr None"
proof (cases "getFileCache ap f")
  case (Inl e)
  then show ?thesis by (simp add: backlink_of_def)
next
  case (Inr cache)
  with assms obtain e where "read ap f = Inl e"
    by (auto simp: readable_def split: sum.splits)
  with Inr show ?thesis
    by (cases cache) (simp_all add: backlink_of_def Let_def)
qed

lemma backlinks_scan_skip:
  "(\<exists>err. backlink_of rt ap tp tb f = Inl err) \<or> backlink_of rt ap tp tb f = Inr None \<Longrightarrow>
   backlinks_scan rt ap tp tb (f # fs) acc = backlinks_scan rt ap tp tb fs acc"
  by auto

lemma backlinks_scan_isolated:
  "backlinks_scan rt ap tp tb (filter (readable ap) fs) acc = backlinks_scan rt ap tp tb fs acc"
proof (induction fs arbitrary: acc)
  case Nil
  then show ?case by simp
next
  case (Cons f fs)
  show ?case
  proof (cases "readable ap f")
    case True
    have "backlinks_scan rt ap tp tb (filter (readable ap) (f # fs)) acc =
        backlinks_scan rt ap tp tb (f # filter (readable ap) fs) acc"
      using True by simp
    also have "\<dots> = backlinks_scan rt ap tp tb (f # fs) acc"
      by (simp add: Cons.IH split: sum.splits option.splits)
    finally show ?thesis .
  next
    case False
    have "backlinks_scan rt ap tp tb (filter (readable ap) (f # fs)) acc =
        backlinks_scan rt ap tp tb fs acc"
      using False by (simp add: Cons.IH)
    also have "\<dots> = backlinks_scan rt ap tp tb (f # fs) acc"
      using backlinks_scan_skip [OF backlink_of_unreadable [OF False]] by simp
    finally show ?thesis .
  qed
qed

lemma has_link_app:
  "getFirstLinkpathDest ap' = getFirstLinkpathDest ap \<Longrightarrow> has_link ap' f ls tp = has_link ap f ls tp"
  by (simp add: has_link_def)

lemma backlink_of_app:
  assumes "read ap' = read ap" and "getFileCache ap' = getFileCache ap"
    and "getFirstLinkpathDest ap' = getFirstLinkpathDest ap"
  shows "backlink_of rt ap' tp tb f = backlink_of rt ap tp tb f"
  unfolding backlink_of_def assms(1,2) has_link_app [OF assms(3)] fileToNoteInfo_app [OF assms(2)]
  by (rule refl)

lemma backlinks_scan_app:
  assumes "read ap' = read ap" and "getFileCache ap' = getFileCache ap"
    and "getFirstLinkpathDest ap' = getFirstLinkpathDest ap"
  shows "backlinks_scan rt ap' tp tb fs acc = backlinks_scan rt ap tp tb fs acc"
  by (induction fs arbitrary: acc)
     (simp_all add: backlink_of_app [OF assms] split: sum.splits option.splits)

lemma backlinks_route_isolated:
  "backlinks_route rt (without_unreadable ap) py = backlinks_route rt ap py"
proof -
  have "backlinks_scan rt (without_unreadable ap) tp tb fs acc = backlinks_scan rt ap tp tb fs acc"
    for tp tb fs acc
    by (rule backlinks_scan_app) (simp_all add: without_unreadable_def)
  moreover have "getAbstractFileByPath (without_unreadable ap) = getAbstractFileByPath ap"
    "getMarkdownFiles (without_unreadable ap) = filter (readable ap) (getMarkdownFiles ap)"
    by (simp_all add: without_unreadable_def)
  ultimately show ?thesis
    by (simp add: backlinks_route_def backlinks_scan_isolated Let_def
          cong: option.case_cong abstract_file.case_cong)
qed

subsection \<open>C9: error isolation in bulk scans\<close>

text \<open>
  C9. \<open>processBatch\<close> with a positive batch size returns for every processor, whatever
  its calls throw; for a processor without shared state its result is the list of the
  non-null values of the items that do not throw, in order, which is also its result on
  the items without the throwing ones. The search handler answers every request that
  has a body, and its answer is the one it gives on the vault without the notes whose
  text or metadata cannot be read; so is the answer of the backlink scan; and the tag
  listing, which reads metadata only, answers as on the vault without the notes whose
  metadata lookup throws.
\<close>

theorem bulk_scan_isolation:
  "(0 < batchSize \<longrightarrow>
      (\<exists>out. processBatch items p batchSize s = Some out) \<and>
      processBatch items (stateless f) batchSize s =
        Some (List.map_filter (\<lambda>item. caught (f item)) items, s) \<and>
      processBatch items (stateless f) batchSize s =
        processBatch (filter (\<lambda>item. case f item of Inl err \<Rightarrow> False | Inr r \<Rightarrow> True) items)
          (stateless f) batchSize s) \<and>
   (\<exists>r. search_route rt ap (Some b) = Some (Inr r)) \<and>
   search_route rt ap (Some b) = search_route rt (without_unreadable ap) (Some b) \<and>
   backlinks_route rt ap py = backlinks_route rt (without_unreadable ap) py \<and>
   tags_route rt ap = tags_route rt (without_uncached ap)"
proof -
  have pb: "processBatch xs (stateless f) batchSize s =
      Some (List.map_filter (\<lambda>item. caught (f item)) xs, s)" if "0 < batchSize" for xs
    using processBatch_from_stateless [OF that, of xs f 0 "[]" s] by (simp add: processBatch_def)
  have "\<exists>out. processBatch items p batchSize s = Some out" if "0 < batchSize"
    using processBatch_from_total [OF that] by (simp add: processBatch_def)
  moreover have "processBatch items (stateless f) batchSize s =
      processBatch (filter (\<lambda>item. case f item of Inl err \<Rightarrow> False | Inr r \<Rightarrow> True) items)
        (stateless f) batchSize s" if "0 < batchSize"
    by (simp add: pb [OF that] map_filter_filter_caught)
  ultimately show ?thesis
    using pb [of items] search_route_answers [of rt ap b] search_route_isolated [of rt ap b]
      backlinks_route_isolated [of rt ap py] tags_route_isolated [of rt ap]
    by simp
qed

theorem bulk_scan_isolation_witness:
  "processBatch [1, 2, 3, 4, 5 :: nat] (stateless flaky) 2 () = Some ([10, 20, 50], ()) \<and>
   processBatch [1, 2, 4, 5 :: nat] (stateless flaky) 2 () = Some ([10, 20, 50], ()) \<and>
   getMarkdownFiles apBad = [fA, fBad, fB] \<and>
   getMarkdownFiles (without_unreadable apBad) = [fA, fB] \<and>
   getMarkdownFiles (without_uncached apBad) = [fA, fB] \<and>
   search_route rt0 apBad (Some q_search) =
     Some (Inr (Data
       [\<lparr>sr_note = \<lparr>ni_path = ''A'', ni_title = JStr ''A'', ni_tags = [JStr ''todo''],
                      ni_created = None, ni_modified = None\<rparr>,
          sr_matches = [\<lparr>sm_line = 1, sm_text = ''see [[B]]''\<rparr>]\<rparr>,
        \<lparr>sr_note = \<lparr>ni_path = ''B'', ni_title = JStr ''B'', ni_tags = [],
                      ni_created = None, ni_modified = None\<rparr>,
          sr_matches = [\<lparr>sm_line = 1, sm_text = ''back to [[A]]''\<rparr>]\<rparr>])) \<and>
   backlinks_route rt0 apBad ''B'' =
     Data [\<lparr>ni_path = ''A'', ni_title = JStr ''A'', ni_tags = [JStr ''todo''],
            ni_created = None, ni_modified = None, bl_context = ''see [[B]]''\<rparr>] \<and>
   tags_route rt0 apBad = Data [\<lparr>tc_tag = ''todo'', tc_count = 1\<rparr>]"
proof -
  have files: "getMarkdownFiles apBad = [fA, fBad, fB]"
    "getMarkdownFiles (without_unreadable apBad) = [fA, fB]"
    "getMarkdownFiles (without_uncached apBad) = [fA, fB]"
    by code_simp+
  have healthy: "filter (\<lambda>item. case flaky item of Inl err \<Rightarrow> False | Inr r \<Rightarrow> True) [1, 2, 3, 4, 5] =
      [1, 2, 4, 5]"
    by (simp add: flaky_def)
  have vals: "List.map_filter (\<lambda>item. caught (flaky item)) [1, 2, 3, 4, 5] = [10, 20, 50]"
    by (simp add: flaky_def List.map_filter_def)
  have s: "search_route rt0 (without_unreadable apBad) (Some q_search) =
     Some (Inr (Data
       [\<lparr>sr_note = \<lparr>ni_path = ''A'', ni_title = JStr ''A'', ni_tags = [JStr ''todo''],
                      ni_created = None, ni_modified = None\<rparr>,
          sr_matches = [\<lparr>sm_line = 1, sm_text = ''see [[B]]''\<rparr>]\<rparr>,
        \<lparr>sr_note = \<lparr>ni_path = ''B'', ni_title = JStr ''B'', ni_tags = [],
                      ni_created = None, ni_modified = None\<rparr>,
          sr_matches = [\<lparr>sm_line = 1, sm_text = ''back to [[A]]''\<rparr>]\<rparr>]))"
    by code_simp
  have bl: "backlinks_route rt0 (without_unreadable apBad) ''B'' =
     Data [\<lparr>ni_path = ''A'', ni_title = JStr ''A'', ni_tags = [JStr ''todo''],
            ni_created = None, ni_modified = None, bl_context = ''see [[B]]''\<rparr>]"
    by code_simp
  have tg: "tags_route rt0 (without_uncached apBad) = Data [\<lparr>tc_tag = ''todo'', tc_count = 1\<rparr>]"
    by code_simp
  have pos: "(0 :: nat) < 2"
    by simp
  note t = bulk_scan_isolation [of 2 "[1, 2, 3, 4, 5]" "stateless flaky" "()" flaky rt0 apBad q_search "''B''"]
  from t pos have p1: "processBatch [1, 2, 3, 4, 5] (stateless flaky) 2 () =
      Some (List.map_filter (\<lambda>item. caught (flaky item)) [1, 2, 3, 4, 5], ())"
    and p2: "processBatch [1, 2, 3, 4, 5] (stateless flaky) 2 () =
      processBatch (filter (\<lambda>item. case flaky item of Inl err \<Rightarrow> False | Inr r \<Rightarrow> True) [1, 2, 3, 4, 5])
        (stateless flaky) 2 ()"
    by blast+
  from t have q1: "search_route rt0 apBad (Some q_search) =
      search_route rt0 (without_unreadable apBad) (Some q_search)"
    and q2: "backlinks_route rt0 apBad ''B'' = backlinks_route rt0 (without_unreadable apBad) ''B''"
    and q3: "tags_route rt0 apBad = tags_route rt0 (without_uncached apBad)"
    by blast+
  have c1: "processBatch [1, 2, 3, 4, 5 :: nat] (stateless flaky) 2 () = Some ([10, 20, 50], ())"
    using p1 unfolding vals .
  have c2: "processBatch [1, 2, 4, 5 :: nat] (stateless flaky) 2 () = Some ([10, 20, 50], ())"
    using p2 unfolding healthy c1 by (rule sym)
  show ?thesis
    unfolding q1 q2 q3 s bl tg c1 c2 files by simp
qed

end
